theory Spec2Isabelle
  imports Main "HOL-Library.Multiset"
begin

section \<open>The store of push\_activity.py\<close>

text \<open>
  The module keeps five SQLite tables. A table is the list of its rows in rowid order; a
  nullable TEXT column is a \<open>string option\<close>. A timestamp is a reading of a clock, a
  natural number: \<open>now\<close> stands for Python's \<open>datetime.now()\<close> and \<open>sql_now\<close> for
  SQLite's \<open>CURRENT_TIMESTAMP\<close>, which has a resolution of one second. The code reads the
  clock once per statement, the model once per call.
\<close>

type_synonym timestamp = nat

record campaign_row =
  c_id :: string
  c_name :: string
  c_status :: string
  c_created_at :: timestamp
  c_last_updated :: timestamp
  c_is_active :: bool

record lead_row =
  l_id :: string
  l_campaign_id :: string
  l_email :: "string option"
  l_first_name :: "string option"
  l_last_name :: "string option"
  l_company_name :: "string option"
  l_job_title :: "string option"
  l_linkedin_url :: "string option"
  l_state :: "string option"
  l_state_system :: "string option"
  l_created_at :: timestamp
  l_last_updated :: timestamp
  l_is_active :: bool

record change_log_row =
  cl_id :: nat
  change_type :: string
  cl_campaign_id :: "string option"
  cl_campaign_name :: "string option"
  cl_lead_id :: "string option"
  cl_lead_email :: "string option"
  cl_lead_company :: "string option"
  old_value :: "string option"
  new_value :: "string option"
  change_timestamp :: timestamp

record sync_history_row =
  sh_id :: nat
  sync_type :: string
  sh_campaigns_processed :: nat
  sh_leads_processed :: nat
  sh_campaigns_added :: nat
  sh_campaigns_removed :: nat
  sh_leads_added :: nat
  sh_leads_removed :: nat
  sh_leads_updated :: nat
  sync_timestamp :: timestamp
  duration_seconds :: "nat option"

text \<open>
  Of the pushed\_companies table the model has the three columns that the module writes or
  reads. The AUTOINCREMENT key \<open>id\<close> is left out: no statement reads it, and an ignored
  INSERT uses up a key, so that the keys of the rows depend on the inserts that were
  ignored as well.
\<close>

record pushed_company_row =
  pc_campaign_id :: string
  pc_company_name :: string
  pushed_at :: timestamp

record database =
  campaigns :: "campaign_row list"
  leads :: "lead_row list"
  change_log :: "change_log_row list"
  sync_history :: "sync_history_row list"
  pushed_companies :: "pushed_company_row list"

text \<open>The database as \<open>_init_database\<close> leaves a fresh file: five empty tables.\<close>

definition init_database :: database where
  "init_database =
     \<lparr>campaigns = [], leads = [], change_log = [], sync_history = [], pushed_companies = []\<rparr>"

text \<open>
  The errors of the sqlite3 driver that the statements of the module can raise, Python's
  KeyError for a dictionary read of a missing key, and the OverflowError of the driver for
  an integer parameter that does not fit SQLite's 64-bit INTEGER.
\<close>

datatype py_error = IntegrityError | OperationalError | KeyError | OverflowError

text \<open>
  An AUTOINCREMENT key is one more than the largest key used so far; no statement of the
  module deletes a row.
\<close>

definition next_rowid :: "nat list \<Rightarrow> nat" where
  "next_rowid ids = Suc (fold max ids 0)"

subsection \<open>Python sets\<close>

text \<open>
  A Python set is modelled by the list of its elements without repetition. Python does not
  fix the order in which a set is iterated (\<open>for x in s\<close>, \<open>list(s)\<close>); the functions that
  iterate a set take the order as a parameter \<open>it\<close>, which may rearrange the elements but
  neither drops nor repeats one.
\<close>

type_synonym py_set = "string list"

type_synonym set_order = "string list \<Rightarrow> string list"

definition iteration_order :: "set_order \<Rightarrow> bool" where
  "iteration_order it \<longleftrightarrow> (\<forall>xs. mset (it xs) = mset xs)"

definition set_add :: "string \<Rightarrow> py_set \<Rightarrow> py_set" where
  "set_add x s = (if x \<in> set s then s else s @ [x])"

definition set_diff :: "py_set \<Rightarrow> py_set \<Rightarrow> py_set" where
  "set_diff a b = filter (\<lambda>x. x \<notin> set b) a"

definition set_of_list :: "string list \<Rightarrow> py_set" where
  "set_of_list xs = fold set_add xs []"

subsection \<open>Strings\<close>

text \<open>
  A character of a string is a code point below 256. \<open>str.strip()\<close> removes leading and
  trailing whitespace: of these code points, tab to carriage return, the four separators,
  space, next line (133) and no-break space (160).
\<close>

definition is_space :: "char \<Rightarrow> bool" where
  "is_space c \<longleftrightarrow>
     (let n = of_char c :: nat
      in (9 \<le> n \<and> n \<le> 13) \<or> (28 \<le> n \<and> n \<le> 32) \<or> n = 133 \<or> n = 160)"

definition strip :: "string \<Rightarrow> string" where
  "strip s = rev (dropWhile is_space (rev (dropWhile is_space s)))"

definition digit_char :: "nat \<Rightarrow> char" where
  "digit_char d = char_of (48 + d)"

text \<open>\<open>str(n)\<close> for a non-negative integer: its decimal digits.\<close>

function str_nat :: "nat \<Rightarrow> string" where
  "str_nat n = (if n < 10 then [digit_char n] else str_nat (n div 10) @ [digit_char (n mod 10)])"
  by pat_completeness auto
termination
  by (relation "measure (\<lambda>n. n)") auto

declare str_nat.simps [simp del]

subsection \<open>The change log table\<close>

text \<open>
  The columns that \<open>CREATE TABLE change_log\<close> declares. An INSERT names its columns; naming
  a column the table does not have raises sqlite3.OperationalError, and a NULL in the
  NOT NULL column \<open>change_type\<close> raises IntegrityError. The key and the timestamp are filled
  in by the database.
\<close>

definition change_log_columns :: "string list" where
  "change_log_columns =
     [''id'', ''change_type'', ''campaign_id'', ''campaign_name'', ''lead_id'', ''lead_email'',
      ''lead_company'', ''old_value'', ''new_value'', ''change_timestamp'']"

definition column :: "(string \<times> string option) list \<Rightarrow> string \<Rightarrow> string option" where
  "column binds c = (case map_of binds c of None \<Rightarrow> None | Some v \<Rightarrow> v)"

definition insert_change_log ::
  "(string \<times> string option) list \<Rightarrow> timestamp \<Rightarrow> change_log_row list
     \<Rightarrow> py_error + change_log_row list" where
  "insert_change_log binds sql_now tbl =
     (if filter (\<lambda>c. c \<notin> set change_log_columns) (map fst binds) \<noteq> [] then Inl OperationalError
      else case column binds ''change_type'' of
        None \<Rightarrow> Inl IntegrityError
      | Some t \<Rightarrow>
          Inr (tbl @
            [\<lparr>cl_id = next_rowid (map cl_id tbl),
              change_type = t,
              cl_campaign_id = column binds ''campaign_id'',
              cl_campaign_name = column binds ''campaign_name'',
              cl_lead_id = column binds ''lead_id'',
              cl_lead_email = column binds ''lead_email'',
              cl_lead_company = column binds ''lead_company'',
              old_value = column binds ''old_value'',
              new_value = column binds ''new_value'',
              change_timestamp = sql_now\<rparr>]))"

section \<open>Push dedup tracker\<close>

subsection \<open>PushActivityDatabase: the pushed\_companies table\<close>

text \<open>
  \<open>get_pushed_companies\<close>: the set of the company names of the rows of one campaign.
\<close>

definition get_pushed_companies :: "string \<Rightarrow> database \<Rightarrow> py_set" where
  "get_pushed_companies campaign_id db =
     set_of_list (map pc_company_name
       (filter (\<lambda>r. pc_campaign_id r = campaign_id) (pushed_companies db)))"

text \<open>
  \<open>INSERT OR IGNORE INTO pushed_companies (campaign_id, company_name)\<close>: the table is
  UNIQUE(campaign\_id, company\_name), and a row that would break it is skipped.
\<close>

definition insert_or_ignore_pushed ::
  "string \<Rightarrow> timestamp \<Rightarrow> string \<Rightarrow> pushed_company_row list \<Rightarrow> pushed_company_row list" where
  "insert_or_ignore_pushed campaign_id sql_now company_name tbl =
     (if filter (\<lambda>r. pc_campaign_id r = campaign_id \<and> pc_company_name r = company_name) tbl \<noteq> []
      then tbl
      else tbl @ [\<lparr>pc_campaign_id = campaign_id, pc_company_name = company_name,
                   pushed_at = sql_now\<rparr>])"

text \<open>
  \<open>mark_companies_as_pushed\<close>: one INSERT OR IGNORE per name, in the order of the list, and
  the commit. The first INSERT takes the write lock of the file. While another connection
  holds that lock the INSERT raises sqlite3.OperationalError, ``database is locked'', and
  nothing is written; such a connection is one that an earlier call of the module left
  open with its transaction uncommitted (\<open>track_lead_changes\<close> returns from its
  \<open>except\<close> branch without closing or rolling back), or one of another process. Whether
  the file is locked when the call writes is an input of the call, \<open>locked\<close>. With no name
  in the list no statement runs and nothing can fail.

  The function catches every exception, logs it and returns \<open>None\<close> as it does after the
  commit: a call that failed leaves the table as it was and tells its caller nothing.
  Reads are not held up by the write lock of another connection; they see the committed
  rows.
\<close>

definition mark_companies_as_pushed_body ::
  "string \<Rightarrow> string list \<Rightarrow> timestamp \<Rightarrow> bool \<Rightarrow> pushed_company_row list
     \<Rightarrow> py_error + pushed_company_row list" where
  "mark_companies_as_pushed_body campaign_id company_names sql_now locked tbl =
     (if company_names = [] then Inr tbl
      else if locked then Inl OperationalError
      else Inr (fold (insert_or_ignore_pushed campaign_id sql_now) company_names tbl))"

definition mark_companies_as_pushed ::
  "string \<Rightarrow> string list \<Rightarrow> timestamp \<Rightarrow> bool \<Rightarrow> database \<Rightarrow> database" where
  "mark_companies_as_pushed campaign_id company_names sql_now locked db =
     (case mark_companies_as_pushed_body campaign_id company_names sql_now locked
             (pushed_companies db) of
        Inl e \<Rightarrow> db
      | Inr tbl \<Rightarrow> db\<lparr>pushed_companies := tbl\<rparr>)"

text \<open>\<open>get_new_companies\<close>: \<open>current_companies - pushed_companies\<close>.\<close>

definition get_new_companies :: "string \<Rightarrow> py_set \<Rightarrow> database \<Rightarrow> py_set" where
  "get_new_companies campaign_id current_companies db =
     set_diff current_companies (get_pushed_companies campaign_id db)"

text \<open>
  \<open>log_push_activity\<close> looks the campaign's name up (any row, active or not) and inserts a
  change-log row through the column \<open>details\<close>. The function catches every exception and
  logs it, so a failing INSERT leaves the database as it was.
\<close>

definition campaign_name_of :: "string \<Rightarrow> database \<Rightarrow> string" where
  "campaign_name_of campaign_id db =
     (case filter (\<lambda>r. c_id r = campaign_id) (campaigns db) of
        [] \<Rightarrow> ''Campaign '' @ campaign_id
      | r # _ \<Rightarrow> c_name r)"

definition log_push_activity :: "string \<Rightarrow> string \<Rightarrow> nat \<Rightarrow> timestamp \<Rightarrow> database \<Rightarrow> database" where
  "log_push_activity campaign_id push_type companies_count sql_now db =
     (case insert_change_log
             [(''change_type'', Some push_type),
              (''campaign_id'', Some campaign_id),
              (''campaign_name'', Some (campaign_name_of campaign_id db)),
              (''details'', Some (''Pushed '' @ str_nat companies_count @ '' companies to webhook''))]
             sql_now (change_log db) of
        Inl e \<Rightarrow> db
      | Inr tbl \<Rightarrow> db\<lparr>change_log := tbl\<rparr>)"

subsection \<open>PushActivityClient: push\_all, push\_new, status\<close>

text \<open>
  A lead as the export of the campaign returns it: \<open>_id\<close> and the optional keys the code
  reads with \<open>lead.get\<close>. An absent key and a null value are both \<open>None\<close>.
\<close>

record lead =
  lead_id :: string
  email :: "string option"
  firstName :: "string option"
  lastName :: "string option"
  companyName :: "string option"
  jobTitle :: "string option"
  linkedinUrl :: "string option"
  state :: "string option"
  stateSystem :: "string option"

text \<open>
  The set of the stripped, non-empty company names of leads whose \<open>companyName\<close> is absent,
  null or a string.
\<close>

fun unique_companies_loop :: "lead list \<Rightarrow> py_set \<Rightarrow> py_set" where
  "unique_companies_loop [] acc = acc"
| "unique_companies_loop (l # ls) acc =
     (case companyName l of
        None \<Rightarrow> unique_companies_loop ls acc
      | Some n \<Rightarrow>
          if n = [] then unique_companies_loop ls acc
          else if strip n = [] then unique_companies_loop ls acc
          else unique_companies_loop ls (set_add (strip n) acc))"

definition unique_companies :: "lead list \<Rightarrow> py_set" where
  "unique_companies ls = unique_companies_loop ls []"

text \<open>
  The export is parsed JSON, and nothing checks its shape before the push functions loop
  over it. Of an element of the list they see whether it is a dictionary, and what it has
  under \<open>companyName\<close>: nothing, null or a string (a lead as above), or a value of another
  JSON type, of which they see the truth value before \<open>strip\<close> is looked up on it. When
  the export has a string or a dictionary in the place of the list, the loop runs over
  its characters or its keys, which are elements that are strings.
\<close>

datatype value_type = BoolValue | IntValue | FloatValue | ListValue | DictValue

datatype element_type =
  NoneElement | BoolElement | IntElement | FloatElement | StrElement | ListElement

fun value_type_name :: "value_type \<Rightarrow> string" where
  "value_type_name BoolValue = ''bool''"
| "value_type_name IntValue = ''int''"
| "value_type_name FloatValue = ''float''"
| "value_type_name ListValue = ''list''"
| "value_type_name DictValue = ''dict''"

fun element_type_name :: "element_type \<Rightarrow> string" where
  "element_type_name NoneElement = ''NoneType''"
| "element_type_name BoolElement = ''bool''"
| "element_type_name IntElement = ''int''"
| "element_type_name FloatElement = ''float''"
| "element_type_name StrElement = ''str''"
| "element_type_name ListElement = ''list''"

datatype export_item =
    Lead lead
  | LeadWithCompany value_type bool
  | NoLead element_type

text \<open>
  Python's AttributeError for an object of a type that has not the attribute asked for,
  and \<open>str(e)\<close>, its message: the two names, each between apostrophes.
\<close>

datatype attribute_error = AttributeError string string

fun str_attribute_error :: "attribute_error \<Rightarrow> string" where
  "str_attribute_error (AttributeError type_name attribute) =
     [CHR 0x27] @ type_name @ [CHR 0x27] @ '' object has no attribute ''
       @ [CHR 0x27] @ attribute @ [CHR 0x27]"

text \<open>
  The loop of the push functions, ``Extract unique company names'': \<open>lead.get\<close> raises on
  an element that is no dictionary, and \<open>strip\<close> on a company name that is true and no
  string.
\<close>

fun push_unique_companies_loop :: "export_item list \<Rightarrow> py_set \<Rightarrow> attribute_error + py_set" where
  "push_unique_companies_loop [] acc = Inr acc"
| "push_unique_companies_loop (Lead l # ls) acc =
     (case companyName l of
        None \<Rightarrow> push_unique_companies_loop ls acc
      | Some n \<Rightarrow>
          if n = [] then push_unique_companies_loop ls acc
          else if strip n = [] then push_unique_companies_loop ls acc
          else push_unique_companies_loop ls (set_add (strip n) acc))"
| "push_unique_companies_loop (LeadWithCompany ty truthy # ls) acc =
     (if truthy then Inl (AttributeError (value_type_name ty) ''strip'')
      else push_unique_companies_loop ls acc)"
| "push_unique_companies_loop (NoLead ty # ls) acc =
     Inl (AttributeError (element_type_name ty) ''get'')"

definition push_unique_companies :: "export_item list \<Rightarrow> attribute_error + py_set" where
  "push_unique_companies ls = push_unique_companies_loop ls []"

text \<open>
  The dictionaries the push functions return, as association lists in the order of the
  literal.
\<close>

datatype py_value = PyBool bool | PyInt nat | PyStr string | PyList "string list"

type_synonym py_dict = "(string \<times> py_value) list"

definition failure :: "string \<Rightarrow> py_dict" where
  "failure msg = [(''success'', PyBool False), (''error'', PyStr msg)]"

definition pushed :: "string list \<Rightarrow> py_dict" where
  "pushed names =
     [(''success'', PyBool True), (''companies_pushed'', PyInt (length names)),
      (''companies'', PyList names)]"

text \<open>
  \<open>push_all_companies\<close> and \<open>push_new_companies\<close>. The leads are what
  \<open>get_campaign_leads\<close> returned (the empty list when the request failed), \<open>webhook_ok\<close> is
  what \<open>push_companies_to_webhook\<close> returned; both are HTTP calls outside the module, and
  both catch their own exceptions. \<open>locked\<close> is the state of the file when
  \<open>mark_companies_as_pushed\<close> writes; the push functions call it and go on, whatever it
  did. Each function is one \<open>try\<close> block, the \<open>_body\<close>, whose only statements that can
  raise are those of the loop, and an \<open>except Exception\<close> that returns the failure with
  the message of the exception. The functions return the dictionary and the database they
  leave.
\<close>

definition push_all_companies_body ::
  "set_order \<Rightarrow> string \<Rightarrow> export_item list \<Rightarrow> bool \<Rightarrow> timestamp \<Rightarrow> bool \<Rightarrow> database
     \<Rightarrow> attribute_error + py_dict \<times> database" where
  "push_all_companies_body it campaign_id lds webhook_ok sql_now locked db =
     (if lds = [] then Inr (failure ''No leads found for campaign'', db)
      else case push_unique_companies lds of
        Inl e \<Rightarrow> Inl e
      | Inr unique \<Rightarrow>
          if unique = [] then Inr (failure ''No company names found'', db)
          else if webhook_ok then
            Inr (pushed (it unique),
                 log_push_activity campaign_id ''push_all'' (length unique) sql_now
                   (mark_companies_as_pushed campaign_id (it unique) sql_now locked db))
          else Inr (failure ''Failed to push to webhook'', db))"

definition push_all_companies ::
  "set_order \<Rightarrow> string \<Rightarrow> export_item list \<Rightarrow> bool \<Rightarrow> timestamp \<Rightarrow> bool \<Rightarrow> database
     \<Rightarrow> py_dict \<times> database" where
  "push_all_companies it campaign_id lds webhook_ok sql_now locked db =
     (case push_all_companies_body it campaign_id lds webhook_ok sql_now locked db of
        Inl e \<Rightarrow> (failure (str_attribute_error e), db)
      | Inr r \<Rightarrow> r)"

definition push_new_companies_body ::
  "set_order \<Rightarrow> string \<Rightarrow> export_item list \<Rightarrow> bool \<Rightarrow> timestamp \<Rightarrow> bool \<Rightarrow> database
     \<Rightarrow> attribute_error + py_dict \<times> database" where
  "push_new_companies_body it campaign_id lds webhook_ok sql_now locked db =
     (if lds = [] then Inr (failure ''No leads found for campaign'', db)
      else case push_unique_companies lds of
        Inl e \<Rightarrow> Inl e
      | Inr unique \<Rightarrow>
          if unique = [] then Inr (failure ''No company names found'', db)
          else let new_companies = get_new_companies campaign_id unique db in
            if new_companies = [] then Inr (failure ''No new companies to push'', db)
            else if webhook_ok then
              Inr (pushed (it new_companies),
                   log_push_activity campaign_id ''push_new'' (length new_companies) sql_now
                     (mark_companies_as_pushed campaign_id (it new_companies) sql_now locked
                        db))
            else Inr (failure ''Failed to push to webhook'', db))"

definition push_new_companies ::
  "set_order \<Rightarrow> string \<Rightarrow> export_item list \<Rightarrow> bool \<Rightarrow> timestamp \<Rightarrow> bool \<Rightarrow> database
     \<Rightarrow> py_dict \<times> database" where
  "push_new_companies it campaign_id lds webhook_ok sql_now locked db =
     (case push_new_companies_body it campaign_id lds webhook_ok sql_now locked db of
        Inl e \<Rightarrow> (failure (str_attribute_error e), db)
      | Inr r \<Rightarrow> r)"

text \<open>
  \<open>get_campaign_push_status\<close>: the counts and flags of the status dictionary, behind the
  same loop and the same \<open>except\<close>.
\<close>

definition get_campaign_push_status :: "string \<Rightarrow> export_item list \<Rightarrow> database \<Rightarrow> py_dict" where
  "get_campaign_push_status campaign_id lds db =
     (if lds = [] then failure ''No leads found for campaign''
      else case push_unique_companies lds of
        Inl e \<Rightarrow> failure (str_attribute_error e)
      | Inr unique \<Rightarrow>
        if unique = [] then failure ''No company names found''
        else let pushed_companies = get_pushed_companies campaign_id db;
                 has_ever_been_pushed = (length pushed_companies > 0);
                 new_companies = get_new_companies campaign_id unique db
             in [(''success'', PyBool True),
                 (''total_companies'', PyInt (length unique)),
                 (''new_companies'', PyInt (length new_companies)),
                 (''has_new_companies'', PyBool (length new_companies > 0)),
                 (''has_ever_been_pushed'', PyBool has_ever_been_pushed),
                 (''show_push_new'', PyBool (has_ever_been_pushed \<and> length new_companies > 0))])"

section \<open>Diff engine, campaign level\<close>

text \<open>
  A campaign of the snapshot: the keys \<open>_id\<close>, \<open>name\<close> and \<open>status\<close> that
  \<open>update_campaigns\<close> reads, and the leads that \<open>get_campaigns_with_company_data\<close> stores
  under \<open>leads\<close>.
\<close>

record campaign =
  camp_id :: string
  camp_name :: string
  camp_status :: string
  camp_leads :: "lead list"

text \<open>
  The counters \<open>update_campaigns\<close> returns. The dictionary also has the key
  \<open>company_count_changes\<close>, which stays the empty dictionary.
\<close>

record stats =
  campaigns_added :: nat
  campaigns_removed :: nat
  campaigns_updated :: nat
  st_leads_added :: nat
  st_leads_removed :: nat

text \<open>
  A Python dictionary is the list of its items in insertion order. Storing under a key the
  dictionary has replaces the value in place; a comprehension stores the pairs one by one.
\<close>

definition dict_set :: "'k \<Rightarrow> 'v \<Rightarrow> ('k \<times> 'v) list \<Rightarrow> ('k \<times> 'v) list" where
  "dict_set k v d =
     (if k \<in> set (map fst d) then map (\<lambda>kv. if fst kv = k then (k, v) else kv) d
      else d @ [(k, v)])"

definition dict_of :: "('k \<times> 'v) list \<Rightarrow> ('k \<times> 'v) list" where
  "dict_of kvs = fold (\<lambda>kv. dict_set (fst kv) (snd kv)) kvs []"

text \<open>
  \<open>SELECT id, name, status FROM campaigns WHERE is_active = 1\<close>, made the dictionary
  \<open>current_campaigns\<close> from an id to its name and status.
\<close>

definition current_campaigns :: "database \<Rightarrow> (string \<times> string \<times> string) list" where
  "current_campaigns db =
     dict_of (map (\<lambda>r. (c_id r, (c_name r, c_status r))) (filter c_is_active (campaigns db)))"

definition current_campaign_ids :: "database \<Rightarrow> py_set" where
  "current_campaign_ids db = set_of_list (map fst (current_campaigns db))"

definition new_campaign_ids :: "campaign list \<Rightarrow> py_set" where
  "new_campaign_ids new_campaigns = set_of_list (map camp_id new_campaigns)"

definition added_campaigns :: "campaign list \<Rightarrow> database \<Rightarrow> py_set" where
  "added_campaigns new_campaigns db =
     set_diff (new_campaign_ids new_campaigns) (current_campaign_ids db)"

definition removed_campaigns :: "campaign list \<Rightarrow> database \<Rightarrow> py_set" where
  "removed_campaigns new_campaigns db =
     set_diff (current_campaign_ids db) (new_campaign_ids new_campaigns)"

text \<open>
  \<open>INSERT INTO campaigns\<close>: \<open>id\<close> is the PRIMARY KEY of the table, whatever \<open>is_active\<close>
  says, and a second row with a stored id raises IntegrityError.
\<close>

definition insert_campaign :: "campaign_row \<Rightarrow> campaign_row list \<Rightarrow> py_error + campaign_row list" where
  "insert_campaign r tbl =
     (if c_id r \<in> set (map c_id tbl) then Inl IntegrityError else Inr (tbl @ [r]))"

text \<open>\<open>UPDATE campaigns SET is_active = 0, last_updated = ? WHERE id = ?\<close>\<close>

definition deactivate_campaign :: "string \<Rightarrow> timestamp \<Rightarrow> campaign_row list \<Rightarrow> campaign_row list" where
  "deactivate_campaign campaign_id now tbl =
     map (\<lambda>r. if c_id r = campaign_id
               then r\<lparr>c_is_active := False, c_last_updated := now\<rparr> else r) tbl"

text \<open>\<open>UPDATE campaigns SET name = ?, status = ?, last_updated = ? WHERE id = ?\<close>\<close>

definition update_campaign_row ::
  "string \<Rightarrow> string \<Rightarrow> string \<Rightarrow> timestamp \<Rightarrow> campaign_row list \<Rightarrow> campaign_row list" where
  "update_campaign_row campaign_id nm st now tbl =
     map (\<lambda>r. if c_id r = campaign_id
               then r\<lparr>c_name := nm, c_status := st, c_last_updated := now\<rparr> else r) tbl"

text \<open>
  \<open>json.dumps\<close> of the dictionary of a name and a status, with its default
  \<open>ensure_ascii\<close>: a string goes between quotes; the quote and the backslash get a
  backslash before them; backspace, tab, newline, form feed and carriage return are
  written with their letters; every other character that is not between space and tilde is
  written as \<open>\u00\<close> and its two hexadecimal digits, in lower case.
\<close>

definition hex_digit :: "nat \<Rightarrow> char" where
  "hex_digit d = (if d < 10 then char_of (48 + d) else char_of (87 + d))"

definition json_escape :: "char \<Rightarrow> string" where
  "json_escape c =
     (let n = of_char c :: nat in
      if c = CHR 0x22 then [CHR 0x5C, CHR 0x22]
      else if c = CHR 0x5C then [CHR 0x5C, CHR 0x5C]
      else if c = CHR 0x08 then [CHR 0x5C, CHR ''b'']
      else if c = CHR 0x09 then [CHR 0x5C, CHR ''t'']
      else if c = CHR 0x0A then [CHR 0x5C, CHR ''n'']
      else if c = CHR 0x0C then [CHR 0x5C, CHR ''f'']
      else if c = CHR 0x0D then [CHR 0x5C, CHR ''r'']
      else if 32 \<le> n \<and> n \<le> 126 then [c]
      else [CHR 0x5C, CHR ''u'', CHR ''0'', CHR ''0'', hex_digit (n div 16), hex_digit (n mod 16)])"

definition json_string :: "string \<Rightarrow> string" where
  "json_string s = [CHR 0x22] @ concat (map json_escape s) @ [CHR 0x22]"

definition json_dumps :: "string \<times> string \<Rightarrow> string" where
  "json_dumps d =
     ''{'' @ json_string ''name'' @ '': '' @ json_string (fst d) @ '', ''
       @ json_string ''status'' @ '': '' @ json_string (snd d) @ ''}''"

text \<open>The first loop: insert and log the campaigns of the snapshot whose id is added.\<close>

fun add_new_campaigns ::
  "timestamp \<Rightarrow> timestamp \<Rightarrow> py_set \<Rightarrow> campaign list \<Rightarrow> stats \<times> database
     \<Rightarrow> py_error + stats \<times> database" where
  "add_new_campaigns now sql_now added [] sd = Inr sd"
| "add_new_campaigns now sql_now added (c # cs) (st, db) =
     (if camp_id c \<in> set added then
        (case insert_campaign
                \<lparr>c_id = camp_id c, c_name = camp_name c, c_status = camp_status c,
                  c_created_at = now, c_last_updated = now, c_is_active = True\<rparr>
                (campaigns db) of
           Inl e \<Rightarrow> Inl e
         | Inr ctbl \<Rightarrow>
             (case insert_change_log
                     [(''change_type'', Some ''campaign_added''),
                      (''campaign_id'', Some (camp_id c)),
                      (''campaign_name'', Some (camp_name c))]
                     sql_now (change_log db) of
                Inl e \<Rightarrow> Inl e
              | Inr ltbl \<Rightarrow>
                  add_new_campaigns now sql_now added cs
                    (st\<lparr>campaigns_added := campaigns_added st + 1\<rparr>,
                     db\<lparr>campaigns := ctbl, change_log := ltbl\<rparr>)))
      else add_new_campaigns now sql_now added cs (st, db))"

text \<open>
  The second loop: soft-delete and log each removed id; \<open>current\<close> is the dictionary read
  at the start of the call.
\<close>

fun mark_removed_campaigns ::
  "timestamp \<Rightarrow> timestamp \<Rightarrow> (string \<times> string \<times> string) list \<Rightarrow> string list \<Rightarrow> stats \<times> database
     \<Rightarrow> py_error + stats \<times> database" where
  "mark_removed_campaigns now sql_now current [] sd = Inr sd"
| "mark_removed_campaigns now sql_now current (campaign_id # rest) (st, db) =
     (case map_of current campaign_id of
        None \<Rightarrow> Inl KeyError
      | Some current_campaign \<Rightarrow>
          (case insert_change_log
                  [(''change_type'', Some ''campaign_removed''),
                   (''campaign_id'', Some campaign_id),
                   (''campaign_name'', Some (fst current_campaign))]
                  sql_now (change_log db) of
             Inl e \<Rightarrow> Inl e
           | Inr ltbl \<Rightarrow>
               mark_removed_campaigns now sql_now current rest
                 (st\<lparr>campaigns_removed := campaigns_removed st + 1\<rparr>,
                  db\<lparr>campaigns := deactivate_campaign campaign_id now (campaigns db),
                     change_log := ltbl\<rparr>)))"

text \<open>
  The third loop: a campaign of the snapshot whose id was active at the start and whose
  name or status differs from the dictionary read at the start is updated and logged.
\<close>

fun update_existing_campaigns ::
  "timestamp \<Rightarrow> timestamp \<Rightarrow> (string \<times> string \<times> string) list \<Rightarrow> py_set \<Rightarrow> campaign list
     \<Rightarrow> stats \<times> database \<Rightarrow> py_error + stats \<times> database" where
  "update_existing_campaigns now sql_now current current_ids [] sd = Inr sd"
| "update_existing_campaigns now sql_now current current_ids (c # cs) (st, db) =
     (if camp_id c \<in> set current_ids then
        (case map_of current (camp_id c) of
           None \<Rightarrow> Inl KeyError
         | Some current_campaign \<Rightarrow>
             if fst current_campaign \<noteq> camp_name c \<or> snd current_campaign \<noteq> camp_status c then
               (case insert_change_log
                       [(''change_type'', Some ''campaign_updated''),
                        (''campaign_id'', Some (camp_id c)),
                        (''campaign_name'', Some (camp_name c)),
                        (''old_value'', Some (json_dumps current_campaign)),
                        (''new_value'', Some (json_dumps (camp_name c, camp_status c)))]
                       sql_now (change_log db) of
                  Inl e \<Rightarrow> Inl e
                | Inr ltbl \<Rightarrow>
                    update_existing_campaigns now sql_now current current_ids cs
                      (st\<lparr>campaigns_updated := campaigns_updated st + 1\<rparr>,
                       db\<lparr>campaigns :=
                            update_campaign_row (camp_id c) (camp_name c) (camp_status c) now
                              (campaigns db),
                          change_log := ltbl\<rparr>))
             else update_existing_campaigns now sql_now current current_ids cs (st, db))
      else update_existing_campaigns now sql_now current current_ids cs (st, db))"

text \<open>
  \<open>INSERT INTO sync_history (sync_type, campaigns_processed, campaigns_added,
  campaigns_removed)\<close>; the other counters take their default 0, the duration is NULL.
\<close>

definition record_sync_history :: "nat \<Rightarrow> stats \<Rightarrow> timestamp \<Rightarrow> database \<Rightarrow> database" where
  "record_sync_history processed st sql_now db =
     db\<lparr>sync_history := sync_history db @
          [\<lparr>sh_id = next_rowid (map sh_id (sync_history db)),
            sync_type = ''incremental'',
            sh_campaigns_processed = processed,
            sh_leads_processed = 0,
            sh_campaigns_added = campaigns_added st,
            sh_campaigns_removed = campaigns_removed st,
            sh_leads_added = 0,
            sh_leads_removed = 0,
            sh_leads_updated = 0,
            sync_timestamp = sql_now,
            duration_seconds = None\<rparr>]\<rparr>"

definition zero_stats :: stats where
  "zero_stats =
     \<lparr>campaigns_added = 0, campaigns_removed = 0, campaigns_updated = 0,
      st_leads_added = 0, st_leads_removed = 0\<rparr>"

text \<open>
  \<open>PushActivityDatabase.update_campaigns\<close>. All statements run in one transaction that
  is committed at the end; an exception is logged and raised again, nothing is committed,
  and the database stays as it was: the result \<open>Inl\<close>.
\<close>

definition update_campaigns ::
  "set_order \<Rightarrow> campaign list \<Rightarrow> timestamp \<Rightarrow> timestamp \<Rightarrow> database
     \<Rightarrow> py_error + stats \<times> database" where
  "update_campaigns it new_campaigns now sql_now db =
     (let current = current_campaigns db;
          current_ids = current_campaign_ids db;
          added = added_campaigns new_campaigns db;
          removed = removed_campaigns new_campaigns db
      in case add_new_campaigns now sql_now added new_campaigns (zero_stats, db) of
           Inl e \<Rightarrow> Inl e
         | Inr sd1 \<Rightarrow>
             (case mark_removed_campaigns now sql_now current (it removed) sd1 of
                Inl e \<Rightarrow> Inl e
              | Inr sd2 \<Rightarrow>
                  (case update_existing_campaigns now sql_now current current_ids new_campaigns sd2 of
                     Inl e \<Rightarrow> Inl e
                   | Inr (st, db3) \<Rightarrow>
                       Inr (st, record_sync_history (length new_campaigns) st sql_now db3))))"

section \<open>Change log recorder\<close>

text \<open>
  \<open>ORDER BY change_timestamp DESC\<close>: SQLite sorts the rows of the table, taken in rowid
  order, by the key alone, and rows with equal keys keep the order in which they were read.
  \<open>LIMIT ?\<close> takes the limit as a parameter of the statement: the driver binds a Python
  int as a 64-bit signed INTEGER and raises OverflowError for one that does not fit.
  \<open>LIMIT n\<close> keeps the first \<open>n\<close> rows, all of them when \<open>n\<close> is negative.
\<close>

fun insert_desc :: "('a \<Rightarrow> timestamp) \<Rightarrow> 'a \<Rightarrow> 'a list \<Rightarrow> 'a list" where
  "insert_desc key r [] = [r]"
| "insert_desc key r (x # xs) =
     (if key x \<le> key r then r # x # xs else x # insert_desc key r xs)"

fun order_by_desc :: "('a \<Rightarrow> timestamp) \<Rightarrow> 'a list \<Rightarrow> 'a list" where
  "order_by_desc key [] = []"
| "order_by_desc key (r # rs) = insert_desc key r (order_by_desc key rs)"

definition sql_limit :: "int \<Rightarrow> 'a list \<Rightarrow> py_error + 'a list" where
  "sql_limit n rows =
     (if n < - (2 ^ 63) then Inl OverflowError
      else if 2 ^ 63 \<le> n then Inl OverflowError
      else if n < 0 then Inr rows
      else Inr (take (nat n) rows))"

definition select_change_log :: "int \<Rightarrow> database \<Rightarrow> py_error + change_log_row list" where
  "select_change_log limit db = sql_limit limit (order_by_desc change_timestamp (change_log db))"

datatype sql_value = Null | Text string | Time timestamp

definition text_value :: "string option \<Rightarrow> sql_value" where
  "text_value v = (case v of None \<Rightarrow> Null | Some s \<Rightarrow> Text s)"

text \<open>
  \<open>get_change_log\<close>: the seven columns of each selected row, as a dictionary. The function
  catches every exception, logs it and returns the empty list.
\<close>

definition change_dict :: "change_log_row \<Rightarrow> (string \<times> sql_value) list" where
  "change_dict r =
     [(''change_type'', Text (change_type r)),
      (''campaign_name'', text_value (cl_campaign_name r)),
      (''lead_email'', text_value (cl_lead_email r)),
      (''lead_company'', text_value (cl_lead_company r)),
      (''old_value'', text_value (old_value r)),
      (''new_value'', text_value (new_value r)),
      (''change_timestamp'', Time (change_timestamp r))]"

definition get_change_log :: "int \<Rightarrow> database \<Rightarrow> (string \<times> sql_value) list list" where
  "get_change_log limit db =
     (case select_change_log limit db of
        Inl e \<Rightarrow> []
      | Inr rows \<Rightarrow> map change_dict rows)"

section \<open>Diff engine, lead level\<close>

text \<open>
  What \<open>track_lead_changes\<close> returns: two counters, the change of the company count and
  the summaries of the added and the removed leads.
\<close>

record lead_summary =
  sum_email :: "string option"
  sum_company :: "string option"
  sum_name :: string

record lead_changes =
  leads_added :: nat
  leads_removed :: nat
  company_count_change :: int
  added_leads :: "lead_summary list"
  removed_leads :: "lead_summary list"

definition zero_changes :: lead_changes where
  "zero_changes =
     \<lparr>leads_added = 0, leads_removed = 0, company_count_change = 0, added_leads = [],
      removed_leads = []\<rparr>"

text \<open>
  \<open>SELECT ... FROM leads WHERE campaign_id = ? AND is_active = 1\<close>, made the dictionary
  \<open>current_leads\<close> from an id to the stored row.
\<close>

definition current_leads :: "string \<Rightarrow> database \<Rightarrow> (string \<times> lead_row) list" where
  "current_leads campaign_id db =
     dict_of (map (\<lambda>r. (l_id r, r))
       (filter (\<lambda>r. l_campaign_id r = campaign_id \<and> l_is_active r) (leads db)))"

text \<open>
  \<open>INSERT INTO leads\<close>: \<open>id\<close> alone is the PRIMARY KEY of the table. SQLite does not
  enforce the FOREIGN KEY clause unless a pragma turns it on, and the module does not.
\<close>

definition insert_lead :: "lead_row \<Rightarrow> lead_row list \<Rightarrow> py_error + lead_row list" where
  "insert_lead r tbl =
     (if l_id r \<in> set (map l_id tbl) then Inl IntegrityError else Inr (tbl @ [r]))"

text \<open>\<open>UPDATE leads SET is_active = 0, last_updated = ? WHERE id = ?\<close>\<close>

definition deactivate_lead :: "string \<Rightarrow> timestamp \<Rightarrow> lead_row list \<Rightarrow> lead_row list" where
  "deactivate_lead lid now tbl =
     map (\<lambda>r. if l_id r = lid then r\<lparr>l_is_active := False, l_last_updated := now\<rparr> else r) tbl"

text \<open>
  The pieces of the f-strings: \<open>lead.get(k, d)\<close> with a default, the text of a value
  that may be \<open>None\<close>, and \<open>v or 'N/A'\<close>.
\<close>

definition get_or :: "string \<Rightarrow> string option \<Rightarrow> string" where
  "get_or d v = (case v of None \<Rightarrow> d | Some s \<Rightarrow> s)"

definition fmt :: "string option \<Rightarrow> string" where
  "fmt v = (case v of None \<Rightarrow> ''None'' | Some s \<Rightarrow> s)"

definition or_na :: "string option \<Rightarrow> string" where
  "or_na v = (case v of None \<Rightarrow> ''N/A'' | Some s \<Rightarrow> if s = [] then ''N/A'' else s)"

text \<open>The values of a list that Python takes for true: neither \<open>None\<close> nor empty.\<close>

fun truthy_names :: "string option list \<Rightarrow> string list" where
  "truthy_names [] = []"
| "truthy_names (None # vs) = truthy_names vs"
| "truthy_names (Some n # vs) = (if n = [] then truthy_names vs else n # truthy_names vs)"

text \<open>
  The first loop: each lead of the snapshot whose id is added is inserted and logged; the
  INSERT into the change log names the column \<open>details\<close>.
\<close>

fun add_new_leads ::
  "timestamp \<Rightarrow> timestamp \<Rightarrow> string \<Rightarrow> string \<Rightarrow> py_set \<Rightarrow> lead list \<Rightarrow> lead_changes \<times> database
     \<Rightarrow> py_error + lead_changes \<times> database" where
  "add_new_leads now sql_now campaign_id campaign_name added [] cd = Inr cd"
| "add_new_leads now sql_now campaign_id campaign_name added (l # ls) (ch, db) =
     (if lead_id l \<in> set added then
        (case insert_lead
                \<lparr>l_id = lead_id l, l_campaign_id = campaign_id, l_email = email l,
                  l_first_name = firstName l, l_last_name = lastName l,
                  l_company_name = companyName l, l_job_title = jobTitle l,
                  l_linkedin_url = linkedinUrl l, l_state = state l,
                  l_state_system = stateSystem l, l_created_at = now, l_last_updated = now,
                  l_is_active = True\<rparr>
                (leads db) of
           Inl e \<Rightarrow> Inl e
         | Inr tbl \<Rightarrow>
             (case insert_change_log
                     [(''change_type'', Some ''lead_added''),
                      (''campaign_id'', Some campaign_id),
                      (''campaign_name'', Some campaign_name),
                      (''lead_id'', Some (lead_id l)),
                      (''lead_email'', email l),
                      (''lead_company'', companyName l),
                      (''details'',
                         Some (''Lead added: '' @ get_or [] (firstName l) @ '' ''
                           @ get_or [] (lastName l) @ '' ('' @ get_or [] (email l) @ '') from ''
                           @ get_or ''N/A'' (companyName l)))]
                     sql_now (change_log db) of
                Inl e \<Rightarrow> Inl e
              | Inr ltbl \<Rightarrow>
                  add_new_leads now sql_now campaign_id campaign_name added ls
                    (ch\<lparr>leads_added := leads_added ch + 1,
                        added_leads := added_leads ch @
                          [\<lparr>sum_email = email l, sum_company = companyName l,
                            sum_name = strip (get_or [] (firstName l) @ '' ''
                                         @ get_or [] (lastName l))\<rparr>]\<rparr>,
                     db\<lparr>leads := tbl, change_log := ltbl\<rparr>)))
      else add_new_leads now sql_now campaign_id campaign_name added ls (ch, db))"

text \<open>
  The second loop: each removed id is soft-deleted and logged from the stored values, again
  through the column \<open>details\<close>.
\<close>

fun mark_removed_leads ::
  "timestamp \<Rightarrow> timestamp \<Rightarrow> string \<Rightarrow> string \<Rightarrow> (string \<times> lead_row) list \<Rightarrow> string list
     \<Rightarrow> lead_changes \<times> database \<Rightarrow> py_error + lead_changes \<times> database" where
  "mark_removed_leads now sql_now campaign_id campaign_name current [] cd = Inr cd"
| "mark_removed_leads now sql_now campaign_id campaign_name current (lid # rest) (ch, db) =
     (case map_of current lid of
        None \<Rightarrow> Inl KeyError
      | Some lead_data \<Rightarrow>
          (case insert_change_log
                  [(''change_type'', Some ''lead_removed''),
                   (''campaign_id'', Some campaign_id),
                   (''campaign_name'', Some campaign_name),
                   (''lead_id'', Some lid),
                   (''lead_email'', l_email lead_data),
                   (''lead_company'', l_company_name lead_data),
                   (''details'',
                      Some (''Lead removed: '' @ fmt (l_first_name lead_data) @ '' ''
                        @ fmt (l_last_name lead_data) @ '' ('' @ fmt (l_email lead_data)
                        @ '') from '' @ or_na (l_company_name lead_data)))]
                  sql_now (change_log db) of
             Inl e \<Rightarrow> Inl e
           | Inr ltbl \<Rightarrow>
               mark_removed_leads now sql_now campaign_id campaign_name current rest
                 (ch\<lparr>leads_removed := leads_removed ch + 1,
                     removed_leads := removed_leads ch @
                       [\<lparr>sum_email = l_email lead_data, sum_company = l_company_name lead_data,
                         sum_name = strip (fmt (l_first_name lead_data) @ '' ''
                                      @ fmt (l_last_name lead_data))\<rparr>]\<rparr>,
                  db\<lparr>leads := deactivate_lead lid now (leads db), change_log := ltbl\<rparr>)))"

definition old_company_count :: "(string \<times> lead_row) list \<Rightarrow> nat" where
  "old_company_count current =
     length (set_of_list (truthy_names (map (\<lambda>kv. l_company_name (snd kv)) current)))"

definition new_company_count :: "lead list \<Rightarrow> nat" where
  "new_company_count new_leads = length (set_of_list (truthy_names (map companyName new_leads)))"

text \<open>
  The body of \<open>track_lead_changes\<close> inside its \<open>try\<close>: the two loops, the change of the
  company count, its log entry when it is not zero, and the commit.
\<close>

definition track_lead_changes_body ::
  "set_order \<Rightarrow> string \<Rightarrow> string \<Rightarrow> lead list \<Rightarrow> timestamp \<Rightarrow> timestamp \<Rightarrow> database
     \<Rightarrow> py_error + lead_changes \<times> database" where
  "track_lead_changes_body it campaign_id campaign_name new_leads now sql_now db =
     (let current = current_leads campaign_id db;
          new_lead_ids = set_of_list (map lead_id new_leads);
          current_lead_ids = set_of_list (map fst current);
          added_lead_ids = set_diff new_lead_ids current_lead_ids;
          removed_lead_ids = set_diff current_lead_ids new_lead_ids
      in case add_new_leads now sql_now campaign_id campaign_name added_lead_ids new_leads
                (zero_changes, db) of
           Inl e \<Rightarrow> Inl e
         | Inr cd1 \<Rightarrow>
             (case mark_removed_leads now sql_now campaign_id campaign_name current
                     (it removed_lead_ids) cd1 of
                Inl e \<Rightarrow> Inl e
              | Inr (ch, db2) \<Rightarrow>
                  let old_count = old_company_count current;
                      new_count = new_company_count new_leads;
                      changes = ch\<lparr>company_count_change := int new_count - int old_count\<rparr>
                  in if company_count_change changes \<noteq> 0 then
                       (case insert_change_log
                               [(''change_type'', Some ''company_count_changed''),
                                (''campaign_id'', Some campaign_id),
                                (''campaign_name'', Some campaign_name),
                                (''old_value'', Some (str_nat old_count)),
                                (''new_value'', Some (str_nat new_count))]
                               sql_now (change_log db2) of
                          Inl e \<Rightarrow> Inl e
                        | Inr ltbl \<Rightarrow> Inr (changes, db2\<lparr>change_log := ltbl\<rparr>))
                     else Inr (changes, db2)))"

text \<open>
  \<open>track_lead_changes\<close>: an exception anywhere in the body is logged, the transaction is
  not committed, and the function returns the dictionary of zeros.
\<close>

definition track_lead_changes ::
  "set_order \<Rightarrow> string \<Rightarrow> string \<Rightarrow> lead list \<Rightarrow> timestamp \<Rightarrow> timestamp \<Rightarrow> database
     \<Rightarrow> lead_changes \<times> database" where
  "track_lead_changes it campaign_id campaign_name new_leads now sql_now db =
     (case track_lead_changes_body it campaign_id campaign_name new_leads now sql_now db of
        Inl e \<Rightarrow> (zero_changes, db)
      | Inr r \<Rightarrow> r)"

section \<open>Snapshot normalizer and the reconciliation pass\<close>

text \<open>
  \<open>get_campaigns_with_company_data\<close> keeps a running campaign when it has leads, one of
  them has a company name, and the stripped names are more than one.
\<close>

definition has_company_data :: "campaign \<Rightarrow> bool" where
  "has_company_data c \<longleftrightarrow>
     camp_leads c \<noteq> [] \<and> truthy_names (map companyName (camp_leads c)) \<noteq> []
       \<and> length (unique_companies (camp_leads c)) > 1"

definition get_campaigns_with_company_data :: "campaign list \<Rightarrow> campaign list" where
  "get_campaigns_with_company_data running = filter has_company_data running"

text \<open>
  The totals that \<open>PushActivityClient.update_campaigns\<close> adds up over the campaigns, and
  the loop that tracks the leads of each campaign in a transaction of its own.
\<close>

record lead_totals =
  total_leads_added :: nat
  total_leads_removed :: nat
  company_count_changes :: "(string \<times> int) list"
  all_added_leads :: "lead_summary list"
  all_removed_leads :: "lead_summary list"

definition zero_totals :: lead_totals where
  "zero_totals =
     \<lparr>total_leads_added = 0, total_leads_removed = 0, company_count_changes = [],
      all_added_leads = [], all_removed_leads = []\<rparr>"

fun track_all_campaigns ::
  "set_order \<Rightarrow> timestamp \<Rightarrow> timestamp \<Rightarrow> campaign list \<Rightarrow> lead_totals \<times> database
     \<Rightarrow> lead_totals \<times> database" where
  "track_all_campaigns it now sql_now [] td = td"
| "track_all_campaigns it now sql_now (c # cs) (tot, db) =
     (let r = track_lead_changes it (camp_id c) (camp_name c) (camp_leads c) now sql_now db;
          lead_changes = fst r
      in track_all_campaigns it now sql_now cs
           (tot\<lparr>total_leads_added := total_leads_added tot + leads_added lead_changes,
                total_leads_removed := total_leads_removed tot + leads_removed lead_changes,
                company_count_changes :=
                  dict_set (camp_name c) (company_count_change lead_changes)
                    (company_count_changes tot),
                all_added_leads := all_added_leads tot @ added_leads lead_changes,
                all_removed_leads := all_removed_leads tot @ removed_leads lead_changes\<rparr>,
            snd r))"

text \<open>
  \<open>UPDATE sync_history SET duration_seconds = ?, leads_added = ?, leads_removed = ?
  WHERE id = (SELECT id FROM sync_history ORDER BY sync_timestamp DESC LIMIT 1)\<close>
\<close>

definition update_sync_history :: "nat \<Rightarrow> nat \<Rightarrow> nat \<Rightarrow> database \<Rightarrow> database" where
  "update_sync_history duration added removed db =
     (case order_by_desc sync_timestamp (sync_history db) of
        [] \<Rightarrow> db
      | latest # _ \<Rightarrow>
          db\<lparr>sync_history :=
               map (\<lambda>r. if sh_id r = sh_id latest
                         then r\<lparr>duration_seconds := Some duration, sh_leads_added := added,
                                sh_leads_removed := removed\<rparr>
                         else r)
                 (sync_history db)\<rparr>)"

text \<open>
  \<open>PushActivityClient.update_campaigns\<close>: \<open>running\<close> is what the Lemlist API returned,
  each campaign with its leads; \<open>duration\<close> is the time the pass took, in seconds. An
  exception of the campaign diff is raised again.
\<close>

definition client_update_campaigns ::
  "set_order \<Rightarrow> campaign list \<Rightarrow> timestamp \<Rightarrow> timestamp \<Rightarrow> nat \<Rightarrow> database
     \<Rightarrow> py_error + (stats \<times> lead_totals) \<times> database" where
  "client_update_campaigns it running now sql_now duration db =
     (let campaigns = get_campaigns_with_company_data running
      in case update_campaigns it campaigns now sql_now db of
           Inl e \<Rightarrow> Inl e
         | Inr (st, db1) \<Rightarrow>
             (case track_all_campaigns it now sql_now campaigns (zero_totals, db1) of
                (tot, db2) \<Rightarrow>
                  Inr ((st, tot),
                       update_sync_history duration (total_leads_added tot)
                         (total_leads_removed tot) db2)))"

section \<open>The operations of the module\<close>

text \<open>
  Every function of the module that writes to the database, with the arguments and the
  outside inputs of one call. A function that raises leaves the database as it was.
  The functions that mark companies as pushed have, as their last input, whether the file
  is locked when they write.
\<close>

datatype operation =
    UpdateCampaigns set_order "campaign list" timestamp timestamp
  | TrackLeadChanges set_order string string "lead list" timestamp timestamp
  | ClientUpdateCampaigns set_order "campaign list" timestamp timestamp nat
  | MarkCompaniesAsPushed string "string list" timestamp bool
  | LogPushActivity string string nat timestamp
  | PushAllCompanies set_order string "export_item list" bool timestamp bool
  | PushNewCompanies set_order string "export_item list" bool timestamp bool

fun apply_operation :: "operation \<Rightarrow> database \<Rightarrow> database" where
  "apply_operation (UpdateCampaigns it new_campaigns now sql_now) db =
     (case update_campaigns it new_campaigns now sql_now db of Inl e \<Rightarrow> db | Inr r \<Rightarrow> snd r)"
| "apply_operation (TrackLeadChanges it campaign_id campaign_name new_leads now sql_now) db =
     snd (track_lead_changes it campaign_id campaign_name new_leads now sql_now db)"
| "apply_operation (ClientUpdateCampaigns it running now sql_now duration) db =
     (case client_update_campaigns it running now sql_now duration db of
        Inl e \<Rightarrow> db | Inr r \<Rightarrow> snd r)"
| "apply_operation (MarkCompaniesAsPushed campaign_id company_names sql_now locked) db =
     mark_companies_as_pushed campaign_id company_names sql_now locked db"
| "apply_operation (LogPushActivity campaign_id push_type n sql_now) db =
     log_push_activity campaign_id push_type n sql_now db"
| "apply_operation (PushAllCompanies it campaign_id lds webhook_ok sql_now locked) db =
     snd (push_all_companies it campaign_id lds webhook_ok sql_now locked db)"
| "apply_operation (PushNewCompanies it campaign_id lds webhook_ok sql_now locked) db =
     snd (push_new_companies it campaign_id lds webhook_ok sql_now locked db)"

definition run :: "operation list \<Rightarrow> database \<Rightarrow> database" where
  "run ops db = fold apply_operation ops db"

section \<open>Notions of the specification\<close>




text \<open>
  A dictionary carries a campaign id when one of its values is a string that contains the
  id or a list that has it.
\<close>

fun starts_with :: "string \<Rightarrow> string \<Rightarrow> bool" where
  "starts_with s [] = True"
| "starts_with [] (p # ps) = False"
| "starts_with (c # cs) (p # ps) = (c = p \<and> starts_with cs ps)"

fun contains :: "string \<Rightarrow> string \<Rightarrow> bool" where
  "contains [] p = (p = [])"
| "contains (c # cs) p = (starts_with (c # cs) p \<or> contains cs p)"

fun value_mentions :: "string \<Rightarrow> py_value \<Rightarrow> bool" where
  "value_mentions c (PyStr s) = contains s c"
| "value_mentions c (PyList names) = (c \<in> set names)"
| "value_mentions c (PyBool b) = False"
| "value_mentions c (PyInt n) = False"

definition carries_campaign_id :: "string \<Rightarrow> py_dict \<Rightarrow> bool" where
  "carries_campaign_id c d \<longleftrightarrow> filter (\<lambda>kv. value_mentions c (snd kv)) d \<noteq> []"

text \<open>
  The order the specification asks of the change log query: newest first, and of two
  entries with the same timestamp the one with the larger identifier first.
\<close>

definition newest_first_ties_by_id :: "change_log_row list \<Rightarrow> bool" where
  "newest_first_ties_by_id rows \<longleftrightarrow>
     sorted_wrt (\<lambda>a b. change_timestamp b < change_timestamp a
                   \<or> (change_timestamp a = change_timestamp b \<and> cl_id b < cl_id a)) rows"

text \<open>The PRIMARY KEY of the campaigns table: no two rows have the same id.\<close>

definition campaigns_primary_key :: "database \<Rightarrow> bool" where
  "campaigns_primary_key db \<longleftrightarrow> distinct (map c_id (campaigns db))"


section \<open>Example data\<close>

text \<open>A lead that has an id and, possibly, a company name, and no other key.\<close>

definition lead_of :: "string \<Rightarrow> string option \<Rightarrow> lead" where
  "lead_of i n =
     \<lparr>lead_id = i, email = None, firstName = None, lastName = None, companyName = n,
      jobTitle = None, linkedinUrl = None, state = None, stateSystem = None\<rparr>"

text \<open>A campaign of a snapshot with an id, a name and a status, and no leads.\<close>

definition campaign_of :: "string \<Rightarrow> string \<Rightarrow> string \<Rightarrow> campaign" where
  "campaign_of i n s = \<lparr>camp_id = i, camp_name = n, camp_status = s, camp_leads = []\<rparr>"

section \<open>Notions for the campaign diff\<close>

text \<open>
  The kind of a change-log entry is its type and campaign id. \<open>new_campaign_row\<close> is the
  row the first loop inserts, \<open>campaign_log_entry\<close> the entry the loops write, and
  \<open>campaign_changed\<close> the test of the third loop.
\<close>

definition entry_kind :: "change_log_row \<Rightarrow> string \<times> string option" where
  "entry_kind e = (change_type e, cl_campaign_id e)"

definition new_campaign_row :: "timestamp \<Rightarrow> campaign \<Rightarrow> campaign_row" where
  "new_campaign_row now c =
     \<lparr>c_id = camp_id c, c_name = camp_name c, c_status = camp_status c, c_created_at = now,
      c_last_updated = now, c_is_active = True\<rparr>"

definition campaign_changed :: "(string \<times> string \<times> string) list \<Rightarrow> py_set \<Rightarrow> campaign \<Rightarrow> bool" where
  "campaign_changed current current_ids c \<longleftrightarrow>
     camp_id c \<in> set current_ids \<and>
     (case map_of current (camp_id c) of
        None \<Rightarrow> False
      | Some cc \<Rightarrow> fst cc \<noteq> camp_name c \<or> snd cc \<noteq> camp_status c)"

definition campaign_log_entry ::
  "string \<Rightarrow> string \<Rightarrow> string \<Rightarrow> string option \<Rightarrow> string option \<Rightarrow> timestamp
     \<Rightarrow> change_log_row list \<Rightarrow> change_log_row" where
  "campaign_log_entry ty i n old new t tbl =
     \<lparr>cl_id = next_rowid (map cl_id tbl), change_type = ty, cl_campaign_id = Some i,
      cl_campaign_name = Some n, cl_lead_id = None, cl_lead_email = None,
      cl_lead_company = None, old_value = old, new_value = new, change_timestamp = t\<rparr>"

text \<open>
  What the second and the third loop do to one row: \<open>deactivate_all\<close> soft-deletes it when
  its id is among the removed ones, \<open>update_all\<close> gives it the name and status of the last
  changed campaign with its id. \<open>inserted_campaigns\<close> and \<open>changed_campaigns\<close> are the
  campaigns of the snapshot that the first and the third loop act on.
\<close>

definition soft_delete :: "timestamp \<Rightarrow> campaign_row \<Rightarrow> campaign_row" where
  "soft_delete now r = r\<lparr>c_is_active := False, c_last_updated := now\<rparr>"

definition apply_update :: "timestamp \<Rightarrow> campaign \<Rightarrow> campaign_row \<Rightarrow> campaign_row" where
  "apply_update now c r =
     r\<lparr>c_name := camp_name c, c_status := camp_status c, c_last_updated := now\<rparr>"

definition deactivate_all :: "string list \<Rightarrow> timestamp \<Rightarrow> campaign_row \<Rightarrow> campaign_row" where
  "deactivate_all ids now r = (if c_id r \<in> set ids then soft_delete now r else r)"

definition update_all :: "campaign list \<Rightarrow> timestamp \<Rightarrow> campaign_row \<Rightarrow> campaign_row" where
  "update_all cs now r =
     (case find (\<lambda>c. camp_id c = c_id r) (rev cs) of
        None \<Rightarrow> r
      | Some c \<Rightarrow> apply_update now c r)"

definition inserted_campaigns :: "campaign list \<Rightarrow> database \<Rightarrow> campaign list" where
  "inserted_campaigns new_campaigns db =
     filter (\<lambda>c. camp_id c \<in> set (added_campaigns new_campaigns db)) new_campaigns"

definition changed_campaigns :: "campaign list \<Rightarrow> database \<Rightarrow> campaign list" where
  "changed_campaigns new_campaigns db =
     filter (campaign_changed (current_campaigns db) (current_campaign_ids db)) new_campaigns"

text \<open>
  A campaign id is soft-deleted in a store when the campaigns table has a row with the id
  and no row with the id is active.
\<close>

definition soft_deleted :: "string \<Rightarrow> database \<Rightarrow> bool" where
  "soft_deleted i db \<longleftrightarrow>
     i \<in> c_id ` set (campaigns db) \<and> (\<forall>x\<in>set (campaigns db). c_id x = i \<longrightarrow> \<not> c_is_active x)"

section \<open>Example stores\<close>

text \<open>
  The campaigns table after a first reconciliation of the two running campaigns A and B at
  time 1, and the history row that a reconciliation writes.
\<close>

definition row_a :: campaign_row where
  "row_a = \<lparr>c_id = ''A'', c_name = ''X'', c_status = ''running'', c_created_at = 1,
            c_last_updated = 1, c_is_active = True\<rparr>"

definition row_b :: campaign_row where
  "row_b = \<lparr>c_id = ''B'', c_name = ''Y'', c_status = ''running'', c_created_at = 1,
            c_last_updated = 1, c_is_active = True\<rparr>"

definition sync_row :: "nat \<Rightarrow> nat \<Rightarrow> nat \<Rightarrow> nat \<Rightarrow> timestamp \<Rightarrow> sync_history_row" where
  "sync_row i processed added removed t =
     \<lparr>sh_id = i, sync_type = ''incremental'', sh_campaigns_processed = processed,
      sh_leads_processed = 0, sh_campaigns_added = added, sh_campaigns_removed = removed,
      sh_leads_added = 0, sh_leads_removed = 0, sh_leads_updated = 0, sync_timestamp = t,
      duration_seconds = None\<rparr>"

text \<open>The store that the reconciliation of A and B leaves when it starts from a fresh file.\<close>

definition store_ab :: database where
  "store_ab =
     \<lparr>campaigns = [row_a, row_b], leads = [],
      change_log =
        [campaign_log_entry ''campaign_added'' ''A'' ''X'' None None 1 [],
         campaign_log_entry ''campaign_added'' ''B'' ''Y'' None None 1
           [campaign_log_entry ''campaign_added'' ''A'' ''X'' None None 1 []]],
      sync_history = [sync_row 1 2 2 0 1], pushed_companies = []\<rparr>"

text \<open>The store after a second reconciliation, at time 2, of a snapshot that holds A alone.\<close>

definition store_a :: database where
  "store_a =
     \<lparr>campaigns = [row_a, row_b\<lparr>c_is_active := False, c_last_updated := 2\<rparr>], leads = [],
      change_log = change_log store_ab @
        [campaign_log_entry ''campaign_removed'' ''B'' ''Y'' None None 2 (change_log store_ab)],
      sync_history = [sync_row 1 2 2 0 1, sync_row 2 1 0 1 2], pushed_companies = []\<rparr>"

section \<open>Sets, dictionaries and the pushed table: basic facts\<close>

lemma set_set_add: "set (set_add x s) = insert x (set s)"
  by (auto simp: set_add_def)

lemma distinct_set_add: "distinct s \<Longrightarrow> distinct (set_add x s)"
  by (simp add: set_add_def)

lemma set_fold_set_add: "set (fold set_add xs acc) = set acc \<union> set xs"
  by (induction xs arbitrary: acc) (auto simp: set_set_add)

lemma distinct_fold_set_add: "distinct acc \<Longrightarrow> distinct (fold set_add xs acc)"
  by (induction xs arbitrary: acc) (auto simp: distinct_set_add)

lemma set_set_of_list: "set (set_of_list xs) = set xs"
  by (simp add: set_of_list_def set_fold_set_add)

lemma distinct_set_of_list: "distinct (set_of_list xs)"
  by (simp add: set_of_list_def distinct_fold_set_add)

lemma set_set_diff: "set (set_diff a b) = set a - set b"
  by (auto simp: set_diff_def)

lemma distinct_set_diff: "distinct a \<Longrightarrow> distinct (set_diff a b)"
  by (simp add: set_diff_def)

lemma iteration_order_set: "iteration_order it \<Longrightarrow> set (it xs) = set xs"
  by (metis iteration_order_def set_mset_mset)

lemma iteration_order_distinct: "iteration_order it \<Longrightarrow> distinct (it xs) = distinct xs"
  by (metis iteration_order_def mset_eq_imp_distinct_iff)

lemma iteration_order_length: "iteration_order it \<Longrightarrow> length (it xs) = length xs"
  by (metis iteration_order_def size_mset)

lemma iteration_order_Nil: "iteration_order it \<Longrightarrow> it [] = []"
  using iteration_order_length [of it "[]"] by simp

lemma iteration_order_id: "iteration_order (\<lambda>xs. xs)"
  by (simp add: iteration_order_def)

lemma unique_companies_loop_distinct:
  "distinct acc \<Longrightarrow> distinct (unique_companies_loop ls acc)"
  by (induction ls acc rule: unique_companies_loop.induct)
     (auto simp: distinct_set_add split: option.splits)

lemma distinct_unique_companies: "distinct (unique_companies ls)"
  by (simp add: unique_companies_def unique_companies_loop_distinct)

lemma insert_change_log_details:
  "(''details'', v) \<in> set binds \<Longrightarrow> insert_change_log binds t tbl = Inl OperationalError"
  by (auto simp: insert_change_log_def change_log_columns_def filter_empty_conv image_iff
           intro!: bexI [where x = "(''details'', v)"])

lemma log_push_activity_noop: "log_push_activity c ty n t db = db"
  by (simp add: log_push_activity_def insert_change_log_details)


lemma distinct_get_pushed_companies: "distinct (get_pushed_companies c db)"
  by (simp add: get_pushed_companies_def distinct_set_of_list)




section \<open>Campaign diff: the partition of the ids\<close>

text \<open>
  Claim C5. The campaign diff computes \<open>added\<close> as the ids of the snapshot that are not
  active in the store and \<open>removed\<close> as the active ids that are not in the snapshot. The
  two sets are disjoint, and together with the ids that are in both they make up exactly
  the union of the active ids and the ids of the snapshot.
\<close>

theorem campaign_diff_partition:
  "set (added_campaigns new_campaigns db) =
     set (new_campaign_ids new_campaigns) - set (current_campaign_ids db)
   \<and> set (removed_campaigns new_campaigns db) =
     set (current_campaign_ids db) - set (new_campaign_ids new_campaigns)
   \<and> set (added_campaigns new_campaigns db) \<inter> set (removed_campaigns new_campaigns db) = {}
   \<and> set (added_campaigns new_campaigns db)
       \<union> (set (current_campaign_ids db) \<inter> set (new_campaign_ids new_campaigns))
       \<union> set (removed_campaigns new_campaigns db) =
     set (current_campaign_ids db) \<union> set (new_campaign_ids new_campaigns)"
  by (auto simp: added_campaigns_def removed_campaigns_def set_set_diff)

section \<open>Push dedup tracker: the calls\<close>

lemma mark_companies_as_pushed_unlocked:
  "mark_companies_as_pushed c ns t False db =
     db\<lparr>pushed_companies := fold (insert_or_ignore_pushed c t) ns (pushed_companies db)\<rparr>"
  by (simp add: mark_companies_as_pushed_def mark_companies_as_pushed_body_def)

lemma mark_companies_as_pushed_locked: "mark_companies_as_pushed c ns t True db = db"
  by (simp add: mark_companies_as_pushed_def mark_companies_as_pushed_body_def)

lemma mark_companies_as_pushed_cases:
  "mark_companies_as_pushed c ns t locked db =
     (if locked then db else mark_companies_as_pushed c ns t False db)"
  by (cases locked) (simp_all add: mark_companies_as_pushed_locked)

lemma campaigns_mark_companies_as_pushed:
  "campaigns (mark_companies_as_pushed c ns t locked db) = campaigns db"
  by (cases locked)
     (simp_all add: mark_companies_as_pushed_locked mark_companies_as_pushed_unlocked)




lemma push_unique_companies_Nil: "push_unique_companies [] = Inr []"
  by (simp add: push_unique_companies_def)

lemma push_unique_companies_loop_leads:
  "push_unique_companies_loop (map Lead ls) acc = Inr (unique_companies_loop ls acc)"
  by (induction ls acc rule: unique_companies_loop.induct) (simp_all split: option.splits)

lemma push_unique_companies_leads:
  "push_unique_companies (map Lead ls) = Inr (unique_companies ls)"
  by (simp add: push_unique_companies_def unique_companies_def push_unique_companies_loop_leads)

lemma push_new_cases:
  "push_new_companies it c lds ok t locked db =
     (if lds = [] then (failure ''No leads found for campaign'', db)
      else case push_unique_companies lds of
        Inl e \<Rightarrow> (failure (str_attribute_error e), db)
      | Inr u \<Rightarrow>
          if u = [] then (failure ''No company names found'', db)
          else if get_new_companies c u db = [] then (failure ''No new companies to push'', db)
          else if ok then
            (pushed (it (get_new_companies c u db)),
             mark_companies_as_pushed c (it (get_new_companies c u db)) t locked db)
          else (failure ''Failed to push to webhook'', db))"
  by (simp add: push_new_companies_def push_new_companies_body_def Let_def
      log_push_activity_noop split: sum.splits)

lemma push_all_cases:
  "push_all_companies it c lds ok t locked db =
     (if lds = [] then (failure ''No leads found for campaign'', db)
      else case push_unique_companies lds of
        Inl e \<Rightarrow> (failure (str_attribute_error e), db)
      | Inr u \<Rightarrow>
          if u = [] then (failure ''No company names found'', db)
          else if ok then
            (pushed (it u), mark_companies_as_pushed c (it u) t locked db)
          else (failure ''Failed to push to webhook'', db))"
  by (simp add: push_all_companies_def push_all_companies_body_def Let_def
      log_push_activity_noop split: sum.splits)

lemma push_new_snd:
  "snd (push_new_companies it c lds ok t locked db) = db
   \<or> (\<exists>ns. snd (push_new_companies it c lds ok t locked db) =
              mark_companies_as_pushed c ns t False db)"
  by (cases locked) (auto simp: push_new_cases mark_companies_as_pushed_locked split: sum.splits)

lemma push_all_snd:
  "snd (push_all_companies it c lds ok t locked db) = db
   \<or> (\<exists>ns. snd (push_all_companies it c lds ok t locked db) =
              mark_companies_as_pushed c ns t False db)"
  by (cases locked) (auto simp: push_all_cases mark_companies_as_pushed_locked split: sum.splits)

lemma push_new_locked: "snd (push_new_companies it c lds ok t True db) = db"
  by (simp add: push_new_cases mark_companies_as_pushed_locked split: sum.splits)






lemma iteration_order_rev: "iteration_order rev"
  by (simp add: iteration_order_def)

lemma unique_companies_Nil: "unique_companies [] = []"
  by (simp add: unique_companies_def)




lemma failure_neq: "failure m = failure m' \<longleftrightarrow> m = m'"
  by (simp add: failure_def)

lemma pushed_neq_failure: "pushed ns \<noteq> failure m"
  by (simp add: pushed_def failure_def)

lemma str_attribute_error_neq:
  "str_attribute_error e \<noteq> ''No leads found for campaign''"
  "str_attribute_error e \<noteq> ''No company names found''"
  "str_attribute_error e \<noteq> ''No new companies to push''"
  "str_attribute_error e \<noteq> ''Failed to push to webhook''"
  by (cases e; simp)+

section \<open>Push dedup tracker: no duplicate notification\<close>




section \<open>Push dedup tracker: what push\_new does with the delta\<close>




section \<open>Push dedup tracker: the failures\<close>

text \<open>
  With Acme already pushed for campaign c42, \<open>push_new_companies\<close> returns the dictionary
  of \<open>success\<close> and \<open>error\<close> alone, and so does \<open>push_all_companies\<close> for leads without a
  company name: the keys are these two, and no value of either dictionary is or contains
  the campaign id.
\<close>

theorem push_failure_without_campaign_id_counterexample:
  "fst (push_new_companies (\<lambda>xs. xs) ''c42'' [Lead (lead_of ''1'' (Some ''Acme''))] True 7 False
          (mark_companies_as_pushed ''c42'' [''Acme''] 3 False init_database))
     = [(''success'', PyBool False), (''error'', PyStr ''No new companies to push'')]
   \<and> \<not> carries_campaign_id ''c42''
         (fst (push_new_companies (\<lambda>xs. xs) ''c42'' [Lead (lead_of ''1'' (Some ''Acme''))] True 7
            False (mark_companies_as_pushed ''c42'' [''Acme''] 3 False init_database)))
   \<and> fst (push_all_companies (\<lambda>xs. xs) ''c42'' [Lead (lead_of ''1'' None)] True 7 False
          init_database)
     = [(''success'', PyBool False), (''error'', PyStr ''No company names found'')]
   \<and> \<not> carries_campaign_id ''c42''
         (fst (push_all_companies (\<lambda>xs. xs) ''c42'' [Lead (lead_of ''1'' None)] True 7 False
            init_database))"
proof -
  have u: "push_unique_companies [Lead (lead_of ''1'' (Some ''Acme''))] = Inr [''Acme'']"
    by (simp add: push_unique_companies_def lead_of_def strip_def is_space_def set_add_def)
  have g: "get_new_companies ''c42'' [''Acme'']
             (mark_companies_as_pushed ''c42'' [''Acme''] 3 False init_database) = []"
    by (simp add: get_new_companies_def get_pushed_companies_def set_of_list_def set_add_def
        set_diff_def mark_companies_as_pushed_unlocked insert_or_ignore_pushed_def
        init_database_def next_rowid_def)
  have n: "fst (push_new_companies (\<lambda>xs. xs) ''c42'' [Lead (lead_of ''1'' (Some ''Acme''))]
             True 7 False (mark_companies_as_pushed ''c42'' [''Acme''] 3 False init_database))
     = [(''success'', PyBool False), (''error'', PyStr ''No new companies to push'')]"
    by (simp add: push_new_cases u g failure_def)
  have a: "fst (push_all_companies (\<lambda>xs. xs) ''c42'' [Lead (lead_of ''1'' None)] True 7 False
             init_database)
     = [(''success'', PyBool False), (''error'', PyStr ''No company names found'')]"
    by (simp add: push_all_cases push_unique_companies_def lead_of_def failure_def)
  show ?thesis
    unfolding n a by (simp add: carries_campaign_id_def)
qed

text \<open>
  Claim C8, amended. Every call of \<open>push_all_companies\<close> and \<open>push_new_companies\<close> returns a
  dictionary; the one exception that the body can raise is caught and becomes a failure.
  A failing call returns the dictionary with the two keys \<open>success\<close>, which is false, and
  \<open>error\<close>. The message is one of three (push all) or four (push new) fixed texts, the
  guard failures being ``No company names found'' and ``No new companies to push'', or it
  is the message of the exception, which names a type and an attribute. No key holds the
  campaign id, and the campaign id has no part in the message: for given leads and a
  given answer of the webhook, what \<open>push_all_companies\<close> returns is the same for every
  campaign id and database, and the failures that \<open>push_new_companies\<close> can return are
  fixed by the leads alone.
\<close>

theorem push_failure_values:
  "fst (push_all_companies it c lds ok t locked db) \<in>
     (case push_unique_companies lds of
        Inl e \<Rightarrow> {failure (str_attribute_error e)}
      | Inr u \<Rightarrow>
          insert (pushed (it u))
            (failure ` {''No leads found for campaign'', ''No company names found'',
                        ''Failed to push to webhook''}))
   \<and> fst (push_new_companies it c lds ok t locked db) \<in>
     (case push_unique_companies lds of
        Inl e \<Rightarrow> {failure (str_attribute_error e)}
      | Inr u \<Rightarrow>
          insert (pushed (it (get_new_companies c u db)))
            (failure ` {''No leads found for campaign'', ''No company names found'',
                        ''No new companies to push'', ''Failed to push to webhook''}))
   \<and> (fst (push_all_companies it c lds ok t locked db) = failure ''No company names found''
        \<longleftrightarrow> lds \<noteq> [] \<and> push_unique_companies lds = Inr [])
   \<and> (fst (push_new_companies it c lds ok t locked db) = failure ''No new companies to push''
        \<longleftrightarrow> lds \<noteq> [] \<and> (\<exists>u. push_unique_companies lds = Inr u \<and> u \<noteq> []
                               \<and> get_new_companies c u db = []))
   \<and> (push_all_companies_body it c lds ok t locked db = Inl e
        \<longleftrightarrow> lds \<noteq> [] \<and> push_unique_companies lds = Inl e)
   \<and> (push_new_companies_body it c lds ok t locked db = Inl e
        \<longleftrightarrow> lds \<noteq> [] \<and> push_unique_companies lds = Inl e)
   \<and> fst (push_all_companies it c lds ok t locked db) =
       fst (push_all_companies it c' lds ok t' locked' db')
   \<and> failure msg = [(''success'', PyBool False), (''error'', PyStr msg)]
   \<and> map fst (failure msg) = [''success'', ''error'']"
proof -
  have 1: "fst (push_all_companies it c lds ok t locked db) \<in>
     (case push_unique_companies lds of
        Inl e \<Rightarrow> {failure (str_attribute_error e)}
      | Inr u \<Rightarrow>
          insert (pushed (it u))
            (failure ` {''No leads found for campaign'', ''No company names found'',
                        ''Failed to push to webhook''}))"
    by (simp add: push_all_cases push_unique_companies_Nil split: sum.splits)
  have 2: "fst (push_new_companies it c lds ok t locked db) \<in>
     (case push_unique_companies lds of
        Inl e \<Rightarrow> {failure (str_attribute_error e)}
      | Inr u \<Rightarrow>
          insert (pushed (it (get_new_companies c u db)))
            (failure ` {''No leads found for campaign'', ''No company names found'',
                        ''No new companies to push'', ''Failed to push to webhook''}))"
    by (simp add: push_new_cases push_unique_companies_Nil split: sum.splits)
  have 3: "fst (push_all_companies it c lds ok t locked db) = failure ''No company names found''
        \<longleftrightarrow> lds \<noteq> [] \<and> push_unique_companies lds = Inr []"
    by (simp add: push_all_cases failure_neq pushed_neq_failure str_attribute_error_neq
        split: sum.splits)
  have 4: "fst (push_new_companies it c lds ok t locked db) = failure ''No new companies to push''
        \<longleftrightarrow> lds \<noteq> [] \<and> (\<exists>u. push_unique_companies lds = Inr u \<and> u \<noteq> []
                               \<and> get_new_companies c u db = [])"
    by (simp add: push_new_cases failure_neq pushed_neq_failure str_attribute_error_neq
        split: sum.splits)
  have 5: "push_all_companies_body it c lds ok t locked db = Inl e
        \<longleftrightarrow> lds \<noteq> [] \<and> push_unique_companies lds = Inl e"
    by (simp add: push_all_companies_body_def Let_def split: sum.splits)
  have 6: "push_new_companies_body it c lds ok t locked db = Inl e
        \<longleftrightarrow> lds \<noteq> [] \<and> push_unique_companies lds = Inl e"
    by (simp add: push_new_companies_body_def Let_def split: sum.splits)
  have 7: "fst (push_all_companies it c lds ok t locked db) =
       fst (push_all_companies it c' lds ok t' locked' db')"
    by (simp add: push_all_cases split: sum.splits)
  have 8: "failure msg = [(''success'', PyBool False), (''error'', PyStr msg)]"
    by (simp add: failure_def)
  have 9: "map fst (failure msg) = [''success'', ''error'']"
    by (simp add: failure_def)
  show ?thesis
    using 1 2 3 4 5 6 7 8 9 by (intro conjI)
qed

text \<open>
  Leads without a company name, for the guard of push all, and a lead whose company name
  is the number 5, for the exception: the failure then reads that the type int has no
  attribute strip.
\<close>

theorem push_failure_values_witness:
  "fst (push_all_companies rev ''c42'' [Lead (lead_of ''1'' None)] True 7 False init_database)
     = failure ''No company names found''
   \<and> push_new_companies_body rev ''c42'' [LeadWithCompany IntValue True] True 7 False
       init_database = Inl (AttributeError ''int'' ''strip'')
   \<and> fst (push_new_companies rev ''c42'' [LeadWithCompany IntValue True] True 7 False
       init_database)
     = [(''success'', PyBool False),
        (''error'', PyStr (CHR 0x27 # ''int'' @ CHR 0x27 # '' object has no attribute ''
                            @ CHR 0x27 # ''strip'' @ [CHR 0x27]))]"
proof -
  have u1: "push_unique_companies [Lead (lead_of ''1'' None)] = Inr []"
    by (simp add: push_unique_companies_def lead_of_def)
  have u2: "push_unique_companies [LeadWithCompany IntValue True]
              = Inl (AttributeError ''int'' ''strip'')"
    by (simp add: push_unique_companies_def)
  note p = push_failure_values [of rev "''c42''" "[Lead (lead_of ''1'' None)]" True 7 False
      init_database "AttributeError ''int'' ''strip''" "''c42''" 7 False init_database
      "''No company names found''"]
  note q = push_failure_values [of rev "''c42''" "[LeadWithCompany IntValue True]" True 7 False
      init_database "AttributeError ''int'' ''strip''" "''c42''" 7 False init_database
      "str_attribute_error (AttributeError ''int'' ''strip'')"]
  have a: "fst (push_all_companies rev ''c42'' [Lead (lead_of ''1'' None)] True 7 False
             init_database) = failure ''No company names found''"
    using p u1 by simp
  have b: "push_new_companies_body rev ''c42'' [LeadWithCompany IntValue True] True 7 False
       init_database = Inl (AttributeError ''int'' ''strip'')"
    using q u2 by simp
  have c: "fst (push_new_companies rev ''c42'' [LeadWithCompany IntValue True] True 7 False
       init_database) = failure (str_attribute_error (AttributeError ''int'' ''strip''))"
    using q u2 by simp
  show ?thesis
    using a b c by (simp add: failure_def)
qed

section \<open>Change log recorder: the order of the query\<close>

lemma mset_insert_desc: "mset (insert_desc key r xs) = add_mset r (mset xs)"
  by (induction xs) simp_all

lemma mset_order_by_desc: "mset (order_by_desc key xs) = mset xs"
  by (induction xs) (simp_all add: mset_insert_desc)

lemma set_insert_desc: "set (insert_desc key r xs) = insert r (set xs)"
  by (induction xs) auto

lemma sorted_insert_desc:
  "sorted_wrt (\<lambda>a b. key b \<le> key a) xs \<Longrightarrow>
     sorted_wrt (\<lambda>a b. key b \<le> key a) (insert_desc key r xs)"
  by (induction xs) (auto simp: set_insert_desc)

lemma sorted_order_by_desc: "sorted_wrt (\<lambda>a b. key b \<le> key a) (order_by_desc key xs)"
  by (induction xs) (simp_all add: sorted_insert_desc)

lemma filter_insert_desc:
  "filter (\<lambda>x. key x = t) (insert_desc key r xs) =
     (if key r = t then r # filter (\<lambda>x. key x = t) xs else filter (\<lambda>x. key x = t) xs)"
  by (induction xs) auto

lemma filter_order_by_desc:
  "filter (\<lambda>x. key x = t) (order_by_desc key xs) = filter (\<lambda>x. key x = t) xs"
  by (induction xs) (simp_all add: filter_insert_desc)

lemma sorted_wrt_take_drop:
  "sorted_wrt P xs \<Longrightarrow> a \<in> set (take n xs) \<Longrightarrow> b \<in> set (drop n xs) \<Longrightarrow> P a b"
  by (metis append_take_drop_id sorted_wrt_append)

lemma mset_minus_take: "mset xs - mset (take n xs) = mset (drop n xs)"
  by (metis add_diff_cancel_left' append_take_drop_id mset_append)

lemma sql_limit_in_range:
  "- (2 ^ 63) \<le> n \<Longrightarrow> n < 2 ^ 63 \<Longrightarrow>
     sql_limit n rows = Inr (if n < 0 then rows else take (nat n) rows)"
  by (simp add: sql_limit_def)

lemma sql_limit_overflow:
  "n < - (2 ^ 63) \<or> 2 ^ 63 \<le> n \<Longrightarrow> sql_limit n rows = Inl OverflowError"
  by (auto simp: sql_limit_def)

text \<open>
  One reconciliation adds the campaigns A and B within the same second. The query with
  limit 2 returns the entry with identifier 1 before the entry with identifier 2, both with
  timestamp 5: the tie is not broken by descending identifier.
\<close>

theorem change_log_ties_counterexample:
  "select_change_log 2
      (apply_operation (UpdateCampaigns (\<lambda>xs. xs)
          [campaign_of ''A'' ''X'' ''running'', campaign_of ''B'' ''Y'' ''running''] 0 5)
        init_database) =
     Inr [\<lparr>cl_id = 1, change_type = ''campaign_added'', cl_campaign_id = Some ''A'',
            cl_campaign_name = Some ''X'', cl_lead_id = None, cl_lead_email = None,
            cl_lead_company = None, old_value = None, new_value = None,
            change_timestamp = 5\<rparr>,
          \<lparr>cl_id = 2, change_type = ''campaign_added'', cl_campaign_id = Some ''B'',
            cl_campaign_name = Some ''Y'', cl_lead_id = None, cl_lead_email = None,
            cl_lead_company = None, old_value = None, new_value = None,
            change_timestamp = 5\<rparr>]
   \<and> \<not> newest_first_ties_by_id
         [\<lparr>cl_id = 1, change_type = ''campaign_added'', cl_campaign_id = Some ''A'',
            cl_campaign_name = Some ''X'', cl_lead_id = None, cl_lead_email = None,
            cl_lead_company = None, old_value = None, new_value = None,
            change_timestamp = 5\<rparr>,
          \<lparr>cl_id = 2, change_type = ''campaign_added'', cl_campaign_id = Some ''B'',
            cl_campaign_name = Some ''Y'', cl_lead_id = None, cl_lead_email = None,
            cl_lead_company = None, old_value = None, new_value = None,
            change_timestamp = 5\<rparr>]"
proof -
  have log: "change_log (apply_operation (UpdateCampaigns (\<lambda>xs. xs)
          [campaign_of ''A'' ''X'' ''running'', campaign_of ''B'' ''Y'' ''running''] 0 5)
        init_database) =
      [\<lparr>cl_id = 1, change_type = ''campaign_added'', cl_campaign_id = Some ''A'',
         cl_campaign_name = Some ''X'', cl_lead_id = None, cl_lead_email = None,
         cl_lead_company = None, old_value = None, new_value = None, change_timestamp = 5\<rparr>,
       \<lparr>cl_id = 2, change_type = ''campaign_added'', cl_campaign_id = Some ''B'',
         cl_campaign_name = Some ''Y'', cl_lead_id = None, cl_lead_email = None,
         cl_lead_company = None, old_value = None, new_value = None, change_timestamp = 5\<rparr>]"
    by (simp add: update_campaigns_def campaign_of_def init_database_def Let_def
        added_campaigns_def removed_campaigns_def new_campaign_ids_def current_campaign_ids_def
        current_campaigns_def dict_of_def set_of_list_def set_add_def set_diff_def
        insert_campaign_def insert_change_log_def change_log_columns_def column_def
        next_rowid_def zero_stats_def record_sync_history_def)
  show ?thesis
    unfolding select_change_log_def log
    by (simp add: sql_limit_def newest_first_ties_by_id_def)
qed

text \<open>
  Claim C7, amended. For every limit that fits a 64-bit signed integer, the rows that
  \<open>get_change_log\<close> selects, and returns as dictionaries, are ordered newest first by
  timestamp; they are as many as the limit allows (all rows when the limit is negative);
  each is a row of the table; no row left out is newer than a selected one; and the
  selected rows with one and the same timestamp are the first of the table's rows with that
  timestamp, in the order of the table, that is of insertion, not by descending identifier.
  For a limit that does not fit, the query raises the overflow error and \<open>get_change_log\<close>
  returns the empty list.
\<close>

theorem get_change_log_order:
  "(- (2 ^ 63) \<le> limit \<and> limit < 2 ^ 63 \<longrightarrow>
      (\<exists>rows. select_change_log limit db = Inr rows
         \<and> get_change_log limit db = map change_dict rows
         \<and> sorted_wrt (\<lambda>a b. change_timestamp b \<le> change_timestamp a) rows
         \<and> length rows =
             (if limit < 0 then length (change_log db)
              else min (nat limit) (length (change_log db)))
         \<and> mset rows \<subseteq># mset (change_log db)
         \<and> (\<forall>a \<in> set rows. \<forall>b \<in># mset (change_log db) - mset rows.
               change_timestamp b \<le> change_timestamp a)
         \<and> (\<forall>t. \<exists>rest. filter (\<lambda>r. change_timestamp r = t) (change_log db) =
               filter (\<lambda>r. change_timestamp r = t) rows @ rest)))
   \<and> (limit < - (2 ^ 63) \<or> 2 ^ 63 \<le> limit \<longrightarrow>
        select_change_log limit db = Inl OverflowError \<and> get_change_log limit db = [])"
proof (intro conjI impI)
  assume "limit < - (2 ^ 63) \<or> 2 ^ 63 \<le> limit"
  then have "select_change_log limit db = Inl OverflowError"
    unfolding select_change_log_def by (rule sql_limit_overflow)
  then show "select_change_log limit db = Inl OverflowError" "get_change_log limit db = []"
    by (simp_all add: get_change_log_def)
next
  assume r: "- (2 ^ 63) \<le> limit \<and> limit < 2 ^ 63"
  let ?s = "order_by_desc change_timestamp (change_log db)"
  let ?rows = "if limit < 0 then ?s else take (nat limit) ?s"
  have sel: "select_change_log limit db = Inr ?rows"
    unfolding select_change_log_def using r by (simp add: sql_limit_in_range)
  have dicts: "get_change_log limit db = map change_dict ?rows"
    by (simp add: get_change_log_def sel)
  have srt: "sorted_wrt (\<lambda>a b. change_timestamp b \<le> change_timestamp a) ?s"
    by (rule sorted_order_by_desc)
  have len: "length ?s = length (change_log db)"
    by (metis mset_order_by_desc size_mset)
  have props: "sorted_wrt (\<lambda>a b. change_timestamp b \<le> change_timestamp a) ?rows
         \<and> length ?rows =
             (if limit < 0 then length (change_log db)
              else min (nat limit) (length (change_log db)))
         \<and> mset ?rows \<subseteq># mset (change_log db)
         \<and> (\<forall>a \<in> set ?rows. \<forall>b \<in># mset (change_log db) - mset ?rows.
               change_timestamp b \<le> change_timestamp a)
         \<and> (\<forall>t. \<exists>rest. filter (\<lambda>r. change_timestamp r = t) (change_log db) =
               filter (\<lambda>r. change_timestamp r = t) ?rows @ rest)"
  proof (cases "limit < 0")
    case True
    then show ?thesis
      using srt len by (simp add: mset_order_by_desc filter_order_by_desc)
  next
    case False
    have 1: "sorted_wrt (\<lambda>a b. change_timestamp b \<le> change_timestamp a) (take (nat limit) ?s)"
      using srt by (metis append_take_drop_id sorted_wrt_append)
    have 2: "mset (take (nat limit) ?s) \<subseteq># mset (change_log db)"
      by (metis append_take_drop_id mset_append mset_order_by_desc mset_subset_eq_add_left)
    have 3: "mset (change_log db) - mset (take (nat limit) ?s) = mset (drop (nat limit) ?s)"
      using mset_minus_take [of ?s "nat limit"] by (simp add: mset_order_by_desc)
    have 4: "\<forall>a \<in> set (take (nat limit) ?s). \<forall>b \<in> set (drop (nat limit) ?s).
               change_timestamp b \<le> change_timestamp a"
      using sorted_wrt_take_drop [OF srt] by blast
    have 5: "filter (\<lambda>r. change_timestamp r = t) (change_log db) =
               filter (\<lambda>r. change_timestamp r = t) (take (nat limit) ?s)
                 @ filter (\<lambda>r. change_timestamp r = t) (drop (nat limit) ?s)" for t
      by (metis append_take_drop_id filter_append filter_order_by_desc)
    show ?thesis
      using 1 2 4 5 False len by (simp add: 3)
  qed
  show "\<exists>rows. select_change_log limit db = Inr rows
         \<and> get_change_log limit db = map change_dict rows
         \<and> sorted_wrt (\<lambda>a b. change_timestamp b \<le> change_timestamp a) rows
         \<and> length rows =
             (if limit < 0 then length (change_log db)
              else min (nat limit) (length (change_log db)))
         \<and> mset rows \<subseteq># mset (change_log db)
         \<and> (\<forall>a \<in> set rows. \<forall>b \<in># mset (change_log db) - mset rows.
               change_timestamp b \<le> change_timestamp a)
         \<and> (\<forall>t. \<exists>rest. filter (\<lambda>r. change_timestamp r = t) (change_log db) =
               filter (\<lambda>r. change_timestamp r = t) rows @ rest)"
    using sel dicts props by blast
qed

text \<open>
  The store of A and B, whose two entries have the same timestamp: limit 1 selects one row,
  and the limit \<open>2 ^ 63\<close>, which does not fit, gives the empty list.
\<close>

theorem get_change_log_order_witness:
  "(\<exists>rows. select_change_log 1 store_ab = Inr rows
      \<and> get_change_log 1 store_ab = map change_dict rows
      \<and> sorted_wrt (\<lambda>a b. change_timestamp b \<le> change_timestamp a) rows
      \<and> length rows = 1
      \<and> mset rows \<subseteq># mset (change_log store_ab))
   \<and> select_change_log (2 ^ 63) store_ab = Inl OverflowError
   \<and> get_change_log (2 ^ 63) store_ab = []"
proof -
  have l: "length (change_log store_ab) = 2" by (simp add: store_ab_def)
  from get_change_log_order [of 1 store_ab] l
  have a: "\<exists>rows. select_change_log 1 store_ab = Inr rows
      \<and> get_change_log 1 store_ab = map change_dict rows
      \<and> sorted_wrt (\<lambda>a b. change_timestamp b \<le> change_timestamp a) rows
      \<and> length rows = 1
      \<and> mset rows \<subseteq># mset (change_log store_ab)"
    by auto
  from get_change_log_order [of "2 ^ 63" store_ab]
  have b: "select_change_log (2 ^ 63) store_ab = Inl OverflowError
           \<and> get_change_log (2 ^ 63) store_ab = []"
    by simp
  show ?thesis using a b by (rule conjI)
qed

section \<open>Campaign diff: the three loops\<close>

lemma entry_kind_campaign_log_entry [simp]:
  "entry_kind (campaign_log_entry ty i n old new t tbl) = (ty, Some i)"
  by (simp add: entry_kind_def campaign_log_entry_def)

lemma insert_change_log_3:
  "insert_change_log
     [(''change_type'', Some ty), (''campaign_id'', Some i), (''campaign_name'', Some n)] t tbl
   = Inr (tbl @ [campaign_log_entry ty i n None None t tbl])"
  by (simp add: insert_change_log_def change_log_columns_def column_def campaign_log_entry_def)

lemma insert_change_log_5:
  "insert_change_log
     [(''change_type'', Some ty), (''campaign_id'', Some i), (''campaign_name'', Some n),
      (''old_value'', Some ov), (''new_value'', Some nv)] t tbl
   = Inr (tbl @ [campaign_log_entry ty i n (Some ov) (Some nv) t tbl])"
  by (simp add: insert_change_log_def change_log_columns_def column_def campaign_log_entry_def)

lemma add_new_campaigns_Cons:
  "add_new_campaigns now t added (c # cs) (st, db) =
     (if camp_id c \<in> set added then
        if camp_id c \<in> c_id ` set (campaigns db) then Inl IntegrityError
        else add_new_campaigns now t added cs
               (st\<lparr>campaigns_added := campaigns_added st + 1\<rparr>,
                db\<lparr>campaigns := campaigns db @ [new_campaign_row now c],
                   change_log := change_log db @
                     [campaign_log_entry ''campaign_added'' (camp_id c) (camp_name c) None None t
                        (change_log db)]\<rparr>)
      else add_new_campaigns now t added cs (st, db))"
  by (simp add: insert_campaign_def insert_change_log_3 new_campaign_row_def)

lemma mark_removed_campaigns_Cons:
  "mark_removed_campaigns now t current (i # rest) (st, db) =
     (case map_of current i of
        None \<Rightarrow> Inl KeyError
      | Some cc \<Rightarrow>
          mark_removed_campaigns now t current rest
            (st\<lparr>campaigns_removed := campaigns_removed st + 1\<rparr>,
             db\<lparr>campaigns := deactivate_campaign i now (campaigns db),
                change_log := change_log db @
                  [campaign_log_entry ''campaign_removed'' i (fst cc) None None t
                     (change_log db)]\<rparr>))"
  by (simp add: insert_change_log_3 split: option.splits)

lemma update_existing_campaigns_Cons:
  "update_existing_campaigns now t current current_ids (c # cs) (st, db) =
     (if camp_id c \<in> set current_ids \<and> map_of current (camp_id c) = None then Inl KeyError
      else if campaign_changed current current_ids c then
        update_existing_campaigns now t current current_ids cs
          (st\<lparr>campaigns_updated := campaigns_updated st + 1\<rparr>,
           db\<lparr>campaigns :=
                update_campaign_row (camp_id c) (camp_name c) (camp_status c) now (campaigns db),
              change_log := change_log db @
                [campaign_log_entry ''campaign_updated'' (camp_id c) (camp_name c)
                   (Some (json_dumps (the (map_of current (camp_id c)))))
                   (Some (json_dumps (camp_name c, camp_status c))) t (change_log db)]\<rparr>)
      else update_existing_campaigns now t current current_ids cs (st, db))"
  by (auto simp: insert_change_log_5 campaign_changed_def split: option.splits)

declare add_new_campaigns.simps(2) [simp del]
declare mark_removed_campaigns.simps(2) [simp del]
declare update_existing_campaigns.simps(2) [simp del]

lemma add_new_campaigns_Inr:
  "add_new_campaigns now t added cs (st, db) = Inr (st', db') \<Longrightarrow>
     campaigns db' =
       campaigns db @ map (new_campaign_row now) (filter (\<lambda>c. camp_id c \<in> set added) cs)
   \<and> (\<exists>es. change_log db' = change_log db @ es \<and>
          map entry_kind es =
            map (\<lambda>c. (''campaign_added'', Some (camp_id c)))
              (filter (\<lambda>c. camp_id c \<in> set added) cs))
   \<and> st' = st\<lparr>campaigns_added :=
                 campaigns_added st + length (filter (\<lambda>c. camp_id c \<in> set added) cs)\<rparr>
   \<and> leads db' = leads db \<and> sync_history db' = sync_history db
   \<and> pushed_companies db' = pushed_companies db"
proof (induction cs arbitrary: st db)
  case Nil
  then show ?case by simp
next
  case (Cons c cs)
  show ?case
  proof (cases "camp_id c \<in> set added")
    case False
    with Cons.prems have "add_new_campaigns now t added cs (st, db) = Inr (st', db')"
      by (simp add: add_new_campaigns_Cons)
    from Cons.IH [OF this] False show ?thesis by simp
  next
    case True
    with Cons.prems have nc: "camp_id c \<notin> c_id ` set (campaigns db)"
      by (auto simp: add_new_campaigns_Cons split: if_splits)
    let ?st1 = "st\<lparr>campaigns_added := campaigns_added st + 1\<rparr>"
    let ?db1 = "db\<lparr>campaigns := campaigns db @ [new_campaign_row now c],
                   change_log := change_log db @
                     [campaign_log_entry ''campaign_added'' (camp_id c) (camp_name c) None None t
                        (change_log db)]\<rparr>"
    from Cons.prems True nc
    have "add_new_campaigns now t added cs (?st1, ?db1) = Inr (st', db')"
      by (simp add: add_new_campaigns_Cons)
    from Cons.IH [OF this] obtain es where
      c: "campaigns db' = campaigns ?db1 @ map (new_campaign_row now)
            (filter (\<lambda>c. camp_id c \<in> set added) cs)"
      and l: "change_log db' = change_log ?db1 @ es"
      and k: "map entry_kind es = map (\<lambda>c. (''campaign_added'', Some (camp_id c)))
              (filter (\<lambda>c. camp_id c \<in> set added) cs)"
      and s: "st' = ?st1\<lparr>campaigns_added :=
                 campaigns_added ?st1 + length (filter (\<lambda>c. camp_id c \<in> set added) cs)\<rparr>"
      and f: "leads db' = leads ?db1" "sync_history db' = sync_history ?db1"
             "pushed_companies db' = pushed_companies ?db1"
      by blast
    have "change_log db' = change_log db @
            (campaign_log_entry ''campaign_added'' (camp_id c) (camp_name c) None None t
               (change_log db) # es)"
      using l by simp
    moreover have "map entry_kind
            (campaign_log_entry ''campaign_added'' (camp_id c) (camp_name c) None None t
               (change_log db) # es) =
          map (\<lambda>c. (''campaign_added'', Some (camp_id c)))
              (filter (\<lambda>c. camp_id c \<in> set added) (c # cs))"
      using k True by simp
    ultimately have "\<exists>es. change_log db' = change_log db @ es \<and>
          map entry_kind es =
            map (\<lambda>c. (''campaign_added'', Some (camp_id c)))
              (filter (\<lambda>c. camp_id c \<in> set added) (c # cs))"
      by blast
    then show ?thesis using c s f True by simp
  qed
qed

lemma add_new_campaigns_fresh:
  "add_new_campaigns now t added cs (st, db) = Inr (st', db') \<Longrightarrow>
     distinct (map camp_id (filter (\<lambda>c. camp_id c \<in> set added) cs))
   \<and> camp_id ` set (filter (\<lambda>c. camp_id c \<in> set added) cs) \<inter> c_id ` set (campaigns db) = {}"
proof (induction cs arbitrary: st db)
  case Nil
  then show ?case by simp
next
  case (Cons c cs)
  show ?case
  proof (cases "camp_id c \<in> set added")
    case False
    with Cons.prems have "add_new_campaigns now t added cs (st, db) = Inr (st', db')"
      by (simp add: add_new_campaigns_Cons)
    from Cons.IH [OF this] False show ?thesis by simp
  next
    case True
    with Cons.prems have nc: "camp_id c \<notin> c_id ` set (campaigns db)"
      by (auto simp: add_new_campaigns_Cons split: if_splits)
    let ?st1 = "st\<lparr>campaigns_added := campaigns_added st + 1\<rparr>"
    let ?db1 = "db\<lparr>campaigns := campaigns db @ [new_campaign_row now c],
                   change_log := change_log db @
                     [campaign_log_entry ''campaign_added'' (camp_id c) (camp_name c) None None t
                        (change_log db)]\<rparr>"
    from Cons.prems True nc
    have "add_new_campaigns now t added cs (?st1, ?db1) = Inr (st', db')"
      by (simp add: add_new_campaigns_Cons)
    from Cons.IH [OF this]
    have d: "distinct (map camp_id (filter (\<lambda>c. camp_id c \<in> set added) cs))"
      and i: "camp_id ` set (filter (\<lambda>c. camp_id c \<in> set added) cs)
                \<inter> c_id ` set (campaigns ?db1) = {}"
      by blast+
    have "c_id (new_campaign_row now c) = camp_id c" by (simp add: new_campaign_row_def)
    with i have "camp_id c \<notin> camp_id ` set (filter (\<lambda>c. camp_id c \<in> set added) cs)"
      and "camp_id ` set (filter (\<lambda>c. camp_id c \<in> set added) cs)
                \<inter> c_id ` set (campaigns db) = {}"
      by auto
    with d nc True show ?thesis by auto
  qed
qed

lemma add_new_campaigns_none:
  "\<forall>c\<in>set cs. camp_id c \<notin> set added \<Longrightarrow> add_new_campaigns now t added cs sd = Inr sd"
  by (induction cs) (auto simp: add_new_campaigns_Cons intro: prod.exhaust [of sd])

lemma add_new_campaigns_collision:
  "c \<in> set cs \<Longrightarrow> camp_id c \<in> set added \<Longrightarrow> camp_id c \<in> c_id ` set (campaigns db) \<Longrightarrow>
     add_new_campaigns now t added cs (st, db) = Inl IntegrityError"
proof (induction cs arbitrary: st db)
  case Nil
  then show ?case by simp
next
  case (Cons a cs)
  show ?case
  proof (cases "a = c")
    case True
    with Cons.prems show ?thesis by (simp add: add_new_campaigns_Cons)
  next
    case False
    with Cons.prems have m: "c \<in> set cs" by simp
    show ?thesis
      using Cons.IH [OF m Cons.prems(2)] Cons.prems(3)
      by (simp add: add_new_campaigns_Cons)
  qed
qed

lemma c_id_soft_delete [simp]: "c_id (soft_delete now r) = c_id r"
  by (simp add: soft_delete_def)

lemma c_id_apply_update [simp]: "c_id (apply_update now c r) = c_id r"
  by (simp add: apply_update_def)

lemma c_id_deactivate_all [simp]: "c_id (deactivate_all ids now r) = c_id r"
  by (simp add: deactivate_all_def)

lemma c_id_update_all [simp]: "c_id (update_all cs now r) = c_id r"
  by (simp add: update_all_def split: option.splits)

lemma deactivate_campaign_map:
  "deactivate_campaign i now tbl = map (deactivate_all [i] now) tbl"
  by (simp add: deactivate_campaign_def deactivate_all_def soft_delete_def)

lemma deactivate_all_Cons:
  "deactivate_all ids now (deactivate_all [i] now r) = deactivate_all (i # ids) now r"
  by (simp add: deactivate_all_def soft_delete_def)

lemma fold_deactivate:
  "fold (\<lambda>i. deactivate_campaign i now) ids tbl = map (deactivate_all ids now) tbl"
proof (induction ids arbitrary: tbl)
  case Nil
  show ?case by (simp add: deactivate_all_def)
next
  case (Cons i ids)
  have "fold (\<lambda>i. deactivate_campaign i now) (i # ids) tbl =
          fold (\<lambda>i. deactivate_campaign i now) ids (deactivate_campaign i now tbl)"
    by simp
  also have "\<dots> = map (deactivate_all ids now) (deactivate_campaign i now tbl)"
    by (rule Cons.IH)
  also have "\<dots> = map (deactivate_all (i # ids) now) tbl"
    by (simp add: deactivate_campaign_map deactivate_all_Cons comp_def)
  finally show ?case .
qed

lemma update_campaign_row_map:
  "update_campaign_row (camp_id c) (camp_name c) (camp_status c) now tbl =
     map (update_all [c] now) tbl"
  by (auto simp: update_campaign_row_def update_all_def apply_update_def)

lemma update_all_snoc:
  "update_all [c] now (update_all cs now r) = update_all (cs @ [c]) now r"
  by (simp add: update_all_def apply_update_def split: option.splits)

lemma fold_update:
  "fold (\<lambda>c. update_campaign_row (camp_id c) (camp_name c) (camp_status c) now) cs tbl =
     map (update_all cs now) tbl"
proof (induction cs rule: rev_induct)
  case Nil
  show ?case by (simp add: update_all_def)
next
  case (snoc c cs)
  have "fold (\<lambda>c. update_campaign_row (camp_id c) (camp_name c) (camp_status c) now)
          (cs @ [c]) tbl =
        update_campaign_row (camp_id c) (camp_name c) (camp_status c) now
          (fold (\<lambda>c. update_campaign_row (camp_id c) (camp_name c) (camp_status c) now) cs tbl)"
    by simp
  also have "\<dots> = update_campaign_row (camp_id c) (camp_name c) (camp_status c) now
                     (map (update_all cs now) tbl)"
    by (simp only: snoc.IH)
  also have "\<dots> = map (update_all (cs @ [c]) now) tbl"
    by (simp add: update_campaign_row_map update_all_snoc comp_def)
  finally show ?case .
qed

lemma mark_removed_campaigns_Inr:
  "\<forall>i\<in>set ids. map_of current i \<noteq> None \<Longrightarrow>
     \<exists>st' db'. mark_removed_campaigns now t current ids (st, db) = Inr (st', db')
       \<and> campaigns db' = fold (\<lambda>i. deactivate_campaign i now) ids (campaigns db)
       \<and> (\<exists>es. change_log db' = change_log db @ es \<and>
              map entry_kind es = map (\<lambda>i. (''campaign_removed'', Some i)) ids)
       \<and> st' = st\<lparr>campaigns_removed := campaigns_removed st + length ids\<rparr>
       \<and> leads db' = leads db \<and> sync_history db' = sync_history db
       \<and> pushed_companies db' = pushed_companies db"
proof (induction ids arbitrary: st db)
  case Nil
  then show ?case by simp
next
  case (Cons i ids)
  from Cons.prems obtain cc where cc: "map_of current i = Some cc" by auto
  let ?e = "campaign_log_entry ''campaign_removed'' i (fst cc) None None t (change_log db)"
  let ?st1 = "st\<lparr>campaigns_removed := campaigns_removed st + 1\<rparr>"
  let ?db1 = "db\<lparr>campaigns := deactivate_campaign i now (campaigns db),
                 change_log := change_log db @ [?e]\<rparr>"
  from Cons.prems have "\<forall>i\<in>set ids. map_of current i \<noteq> None" by simp
  from Cons.IH [OF this, of ?st1 ?db1] obtain st' db' es where
    r: "mark_removed_campaigns now t current ids (?st1, ?db1) = Inr (st', db')"
    and c: "campaigns db' = fold (\<lambda>i. deactivate_campaign i now) ids (campaigns ?db1)"
    and l: "change_log db' = change_log ?db1 @ es"
    and k: "map entry_kind es = map (\<lambda>i. (''campaign_removed'', Some i)) ids"
    and s: "st' = ?st1\<lparr>campaigns_removed := campaigns_removed ?st1 + length ids\<rparr>"
    and f: "leads db' = leads ?db1" "sync_history db' = sync_history ?db1"
           "pushed_companies db' = pushed_companies ?db1"
    by blast
  have 1: "mark_removed_campaigns now t current (i # ids) (st, db) = Inr (st', db')"
    using r cc by (simp add: mark_removed_campaigns_Cons)
  have 2: "change_log db' = change_log db @ (?e # es)" using l by simp
  have 3: "map entry_kind (?e # es) = map (\<lambda>i. (''campaign_removed'', Some i)) (i # ids)"
    using k by simp
  have 4: "\<exists>es. change_log db' = change_log db @ es \<and>
              map entry_kind es = map (\<lambda>i. (''campaign_removed'', Some i)) (i # ids)"
    using 2 3 by blast
  show ?case using 1 4 c s f by simp
qed

lemma update_existing_campaigns_Inr:
  "\<forall>c\<in>set cs. camp_id c \<in> set current_ids \<longrightarrow> map_of current (camp_id c) \<noteq> None \<Longrightarrow>
     \<exists>st' db'. update_existing_campaigns now t current current_ids cs (st, db) = Inr (st', db')
       \<and> campaigns db' =
           fold (\<lambda>c. update_campaign_row (camp_id c) (camp_name c) (camp_status c) now)
             (filter (campaign_changed current current_ids) cs) (campaigns db)
       \<and> (\<exists>es. change_log db' = change_log db @ es \<and>
              map entry_kind es =
                map (\<lambda>c. (''campaign_updated'', Some (camp_id c)))
                  (filter (campaign_changed current current_ids) cs))
       \<and> st' = st\<lparr>campaigns_updated :=
                     campaigns_updated st
                       + length (filter (campaign_changed current current_ids) cs)\<rparr>
       \<and> leads db' = leads db \<and> sync_history db' = sync_history db
       \<and> pushed_companies db' = pushed_companies db"
proof (induction cs arbitrary: st db)
  case Nil
  then show ?case by simp
next
  case (Cons c cs)
  from Cons.prems have ok: "\<not> (camp_id c \<in> set current_ids \<and> map_of current (camp_id c) = None)"
    by simp
  from Cons.prems have rest:
    "\<forall>c\<in>set cs. camp_id c \<in> set current_ids \<longrightarrow> map_of current (camp_id c) \<noteq> None" by simp
  show ?case
  proof (cases "campaign_changed current current_ids c")
    case False
    from Cons.IH [OF rest, of st db] False ok show ?thesis
      by (simp add: update_existing_campaigns_Cons)
  next
    case True
    let ?e = "campaign_log_entry ''campaign_updated'' (camp_id c) (camp_name c)
                   (Some (json_dumps (the (map_of current (camp_id c)))))
                   (Some (json_dumps (camp_name c, camp_status c))) t (change_log db)"
    let ?st1 = "st\<lparr>campaigns_updated := campaigns_updated st + 1\<rparr>"
    let ?db1 = "db\<lparr>campaigns :=
                update_campaign_row (camp_id c) (camp_name c) (camp_status c) now (campaigns db),
              change_log := change_log db @ [?e]\<rparr>"
    from Cons.IH [OF rest, of ?st1 ?db1] obtain st' db' es where
      r: "update_existing_campaigns now t current current_ids cs (?st1, ?db1) = Inr (st', db')"
      and c: "campaigns db' =
           fold (\<lambda>c. update_campaign_row (camp_id c) (camp_name c) (camp_status c) now)
             (filter (campaign_changed current current_ids) cs) (campaigns ?db1)"
      and l: "change_log db' = change_log ?db1 @ es"
      and k: "map entry_kind es = map (\<lambda>c. (''campaign_updated'', Some (camp_id c)))
                  (filter (campaign_changed current current_ids) cs)"
      and s: "st' = ?st1\<lparr>campaigns_updated := campaigns_updated ?st1
                       + length (filter (campaign_changed current current_ids) cs)\<rparr>"
      and f: "leads db' = leads ?db1" "sync_history db' = sync_history ?db1"
             "pushed_companies db' = pushed_companies ?db1"
      by blast
    have 1: "update_existing_campaigns now t current current_ids (c # cs) (st, db)
               = Inr (st', db')"
      using r ok True by (simp add: update_existing_campaigns_Cons)
    have 2: "change_log db' = change_log db @ (?e # es)" using l by simp
    have 3: "map entry_kind (?e # es) = map (\<lambda>c. (''campaign_updated'', Some (camp_id c)))
                  (filter (campaign_changed current current_ids) (c # cs))"
      using k True by simp
    have 4: "\<exists>es. change_log db' = change_log db @ es \<and>
              map entry_kind es = map (\<lambda>c. (''campaign_updated'', Some (camp_id c)))
                  (filter (campaign_changed current current_ids) (c # cs))"
      using 2 3 by blast
    show ?thesis using 1 4 c s f True by simp
  qed
qed

lemma keys_dict_set: "fst ` set (dict_set k v d) = insert k (fst ` set d)"
proof (cases "k \<in> set (map fst d)")
  case True
  have "map fst (map (\<lambda>kv. if fst kv = k then (k, v) else kv) d) = map fst d"
    by (induction d) auto
  then have "fst ` set (map (\<lambda>kv. if fst kv = k then (k, v) else kv) d) = fst ` set d"
    by (metis set_map)
  with True show ?thesis by (auto simp: dict_set_def)
next
  case False
  then show ?thesis by (simp add: dict_set_def)
qed

lemma keys_fold_dict_set:
  "fst ` set (fold (\<lambda>kv. dict_set (fst kv) (snd kv)) kvs acc) = fst ` set acc \<union> fst ` set kvs"
  by (induction kvs arbitrary: acc) (auto simp: keys_dict_set)

lemma keys_dict_of: "fst ` set (dict_of kvs) = fst ` set kvs"
  by (simp add: dict_of_def keys_fold_dict_set)

lemma fold_dict_set_distinct:
  "distinct (map fst (acc @ kvs)) \<Longrightarrow>
     fold (\<lambda>kv. dict_set (fst kv) (snd kv)) kvs acc = acc @ kvs"
proof (induction kvs arbitrary: acc)
  case Nil
  show ?case by simp
next
  case (Cons kv kvs)
  have "dict_set (fst kv) (snd kv) acc = acc @ [kv]"
    using Cons.prems by (auto simp: dict_set_def)
  moreover have "distinct (map fst ((acc @ [kv]) @ kvs))" using Cons.prems by simp
  ultimately show ?case using Cons.IH [of "acc @ [kv]"] by simp
qed

lemma dict_of_distinct: "distinct (map fst kvs) \<Longrightarrow> dict_of kvs = kvs"
  using fold_dict_set_distinct [of "[]" kvs] by (simp add: dict_of_def)

lemma set_current_campaign_ids:
  "set (current_campaign_ids db) = c_id ` {r \<in> set (campaigns db). c_is_active r}"
  by (auto simp: current_campaign_ids_def set_set_of_list current_campaigns_def keys_dict_of
      image_iff)

lemma current_campaigns_dom:
  "map_of (current_campaigns db) i \<noteq> None \<longleftrightarrow> i \<in> set (current_campaign_ids db)"
  by (simp add: map_of_eq_None_iff current_campaign_ids_def set_set_of_list)

section \<open>Campaign diff: what a completed reconciliation leaves\<close>

lemma mark_removed_campaigns_dom:
  "mark_removed_campaigns now t current ids (st, db) = Inr r \<Longrightarrow>
     \<forall>i\<in>set ids. map_of current i \<noteq> None"
proof (induction ids arbitrary: st db)
  case Nil
  show ?case by simp
next
  case (Cons i ids)
  from Cons.prems obtain cc where cc: "map_of current i = Some cc"
    by (cases "map_of current i") (simp_all add: mark_removed_campaigns_Cons)
  with Cons.prems have "mark_removed_campaigns now t current ids
            (st\<lparr>campaigns_removed := campaigns_removed st + 1\<rparr>,
             db\<lparr>campaigns := deactivate_campaign i now (campaigns db),
                change_log := change_log db @
                  [campaign_log_entry ''campaign_removed'' i (fst cc) None None t
                     (change_log db)]\<rparr>) = Inr r"
    by (simp add: mark_removed_campaigns_Cons)
  from Cons.IH [OF this] cc show ?case by simp
qed

lemma update_existing_campaigns_dom:
  "update_existing_campaigns now t current current_ids cs (st, db) = Inr r \<Longrightarrow>
     \<forall>c\<in>set cs. camp_id c \<in> set current_ids \<longrightarrow> map_of current (camp_id c) \<noteq> None"
proof (induction cs arbitrary: st db)
  case Nil
  show ?case by simp
next
  case (Cons c cs)
  from Cons.prems
  have ok: "\<not> (camp_id c \<in> set current_ids \<and> map_of current (camp_id c) = None)"
    by (auto simp: update_existing_campaigns_Cons split: if_splits)
  from Cons.prems ok obtain st1 db1 where
    "update_existing_campaigns now t current current_ids cs (st1, db1) = Inr r"
    by (auto simp: update_existing_campaigns_Cons split: if_splits)
  from Cons.IH [OF this] ok show ?case by auto
qed

lemma deactivate_all_cong:
  "set ids = set ids' \<Longrightarrow> deactivate_all ids now = deactivate_all ids' now"
  by (rule ext) (simp add: deactivate_all_def)

lemma update_campaigns_add:
  "update_campaigns it new now t db = Inr r \<Longrightarrow>
     \<exists>st1 db1. add_new_campaigns now t (added_campaigns new db) new (zero_stats, db)
                  = Inr (st1, db1)"
  by (cases "add_new_campaigns now t (added_campaigns new db) new (zero_stats, db)")
     (auto simp: update_campaigns_def Let_def)

lemma update_campaigns_result:
  assumes "update_campaigns it new now t db = Inr (st, db')"
  shows "campaigns db' =
           map (update_all (changed_campaigns new db) now)
             (map (deactivate_all (it (removed_campaigns new db)) now)
                (campaigns db @ map (new_campaign_row now) (inserted_campaigns new db)))"
    and "\<exists>es. change_log db' = change_log db @ es \<and>
           map entry_kind es =
             map (\<lambda>c. (''campaign_added'', Some (camp_id c))) (inserted_campaigns new db)
             @ map (\<lambda>i. (''campaign_removed'', Some i)) (it (removed_campaigns new db))
             @ map (\<lambda>c. (''campaign_updated'', Some (camp_id c))) (changed_campaigns new db)"
    and "st = \<lparr>campaigns_added = length (inserted_campaigns new db),
              campaigns_removed = length (it (removed_campaigns new db)),
              campaigns_updated = length (changed_campaigns new db),
              st_leads_added = 0, st_leads_removed = 0\<rparr>"
    and "leads db' = leads db" and "pushed_companies db' = pushed_companies db"
    and "distinct (map camp_id (inserted_campaigns new db))"
    and "camp_id ` set (inserted_campaigns new db) \<inter> c_id ` set (campaigns db) = {}"
proof -
  let ?cur = "current_campaigns db"
  let ?ids = "current_campaign_ids db"
  let ?A = "added_campaigns new db"
  let ?R = "it (removed_campaigns new db)"
  obtain r1 where a: "add_new_campaigns now t ?A new (zero_stats, db) = Inr r1"
    using update_campaigns_add [OF assms] by blast
  obtain r2 where m: "mark_removed_campaigns now t ?cur ?R r1 = Inr r2"
    using assms a
    by (cases "mark_removed_campaigns now t ?cur ?R r1")
       (auto simp: update_campaigns_def Let_def)
  obtain r3 where u: "update_existing_campaigns now t ?cur ?ids new r2 = Inr r3"
    using assms a m
    by (cases "update_existing_campaigns now t ?cur ?ids new r2")
       (auto simp: update_campaigns_def Let_def)
  obtain st1 db1 where r1: "r1 = (st1, db1)" by (cases r1)
  obtain st2 db2 where r2: "r2 = (st2, db2)" by (cases r2)
  obtain st3 db3 where r3: "r3 = (st3, db3)" by (cases r3)
  have X: "update_campaigns it new now t db =
          Inr (st3, record_sync_history (length new) st3 t db3)"
    using a m u r3 by (simp add: update_campaigns_def Let_def)
  from assms [symmetric] X
  have "Inr (st, db') =
      (Inr (st3, record_sync_history (length new) st3 t db3) :: py_error + stats \<times> database)"
    by (rule trans)
  then have fin: "st = st3" "db' = record_sync_history (length new) st3 t db3"
    by blast+
  note A = add_new_campaigns_Inr [OF a [unfolded r1]]
  note F = add_new_campaigns_fresh [OF a [unfolded r1]]
  have dom2: "\<forall>i\<in>set ?R. map_of ?cur i \<noteq> None"
    using mark_removed_campaigns_dom [OF m [unfolded r1]] .
  have dom3: "\<forall>c\<in>set new. camp_id c \<in> set ?ids \<longrightarrow> map_of ?cur (camp_id c) \<noteq> None"
    using update_existing_campaigns_dom [OF u [unfolded r2]] .
  from mark_removed_campaigns_Inr [OF dom2, of now t st1 db1] m r1 r2
  obtain es2 where
    c2: "campaigns db2 = fold (\<lambda>i. deactivate_campaign i now) ?R (campaigns db1)"
    and l2: "change_log db2 = change_log db1 @ es2"
    and k2: "map entry_kind es2 = map (\<lambda>i. (''campaign_removed'', Some i)) ?R"
    and s2: "st2 = st1\<lparr>campaigns_removed := campaigns_removed st1 + length ?R\<rparr>"
    and f2: "leads db2 = leads db1" "pushed_companies db2 = pushed_companies db1"
    by auto
  from update_existing_campaigns_Inr [OF dom3, of now t st2 db2] u r2 r3
  obtain es3 where
    c3: "campaigns db3 =
           fold (\<lambda>c. update_campaign_row (camp_id c) (camp_name c) (camp_status c) now)
             (filter (campaign_changed ?cur ?ids) new) (campaigns db2)"
    and l3: "change_log db3 = change_log db2 @ es3"
    and k3: "map entry_kind es3 = map (\<lambda>c. (''campaign_updated'', Some (camp_id c)))
               (filter (campaign_changed ?cur ?ids) new)"
    and s3: "st3 = st2\<lparr>campaigns_updated := campaigns_updated st2
               + length (filter (campaign_changed ?cur ?ids) new)\<rparr>"
    and f3: "leads db3 = leads db2" "pushed_companies db3 = pushed_companies db2"
    by auto
  from A obtain es1 where
    l1: "change_log db1 = change_log db @ es1"
    and k1: "map entry_kind es1 = map (\<lambda>c. (''campaign_added'', Some (camp_id c)))
               (filter (\<lambda>c. camp_id c \<in> set ?A) new)"
    by blast
  show "campaigns db' =
           map (update_all (changed_campaigns new db) now)
             (map (deactivate_all (it (removed_campaigns new db)) now)
                (campaigns db @ map (new_campaign_row now) (inserted_campaigns new db)))"
    using A c2 c3 fin
    by (simp add: record_sync_history_def fold_update fold_deactivate changed_campaigns_def
        inserted_campaigns_def)
  have "change_log db' = change_log db @ (es1 @ es2 @ es3)"
    using l1 l2 l3 fin by (simp add: record_sync_history_def)
  moreover have "map entry_kind (es1 @ es2 @ es3) =
             map (\<lambda>c. (''campaign_added'', Some (camp_id c))) (inserted_campaigns new db)
             @ map (\<lambda>i. (''campaign_removed'', Some i)) (it (removed_campaigns new db))
             @ map (\<lambda>c. (''campaign_updated'', Some (camp_id c))) (changed_campaigns new db)"
    using k1 k2 k3 by (simp add: changed_campaigns_def inserted_campaigns_def)
  ultimately show "\<exists>es. change_log db' = change_log db @ es \<and>
           map entry_kind es =
             map (\<lambda>c. (''campaign_added'', Some (camp_id c))) (inserted_campaigns new db)
             @ map (\<lambda>i. (''campaign_removed'', Some i)) (it (removed_campaigns new db))
             @ map (\<lambda>c. (''campaign_updated'', Some (camp_id c))) (changed_campaigns new db)"
    by blast
  show "st = \<lparr>campaigns_added = length (inserted_campaigns new db),
              campaigns_removed = length (it (removed_campaigns new db)),
              campaigns_updated = length (changed_campaigns new db),
              st_leads_added = 0, st_leads_removed = 0\<rparr>"
    using A s2 s3 fin
    by (simp add: zero_stats_def changed_campaigns_def inserted_campaigns_def)
  show "leads db' = leads db" using A f2 f3 fin by (simp add: record_sync_history_def)
  show "pushed_companies db' = pushed_companies db"
    using A f2 f3 fin by (simp add: record_sync_history_def)
  show "distinct (map camp_id (inserted_campaigns new db))"
    using F by (simp add: inserted_campaigns_def)
  show "camp_id ` set (inserted_campaigns new db) \<inter> c_id ` set (campaigns db) = {}"
    using F by (simp add: inserted_campaigns_def)
qed

lemma update_campaigns_succeeds:
  assumes "iteration_order it"
    and "add_new_campaigns now t (added_campaigns new db) new (zero_stats, db) = Inr r1"
  shows "\<exists>r. update_campaigns it new now t db = Inr r"
proof -
  let ?cur = "current_campaigns db"
  let ?ids = "current_campaign_ids db"
  let ?R = "it (removed_campaigns new db)"
  obtain st1 db1 where r1: "r1 = (st1, db1)" by (cases r1)
  have "set ?R \<subseteq> set ?ids"
    using assms(1) by (auto simp: iteration_order_set removed_campaigns_def set_set_diff)
  then have dom2: "\<forall>i\<in>set ?R. map_of ?cur i \<noteq> None"
    using current_campaigns_dom by blast
  have dom3: "\<forall>c\<in>set new. camp_id c \<in> set ?ids \<longrightarrow> map_of ?cur (camp_id c) \<noteq> None"
    using current_campaigns_dom by blast
  from mark_removed_campaigns_Inr [OF dom2, of now t st1 db1]
  obtain st2 db2 where m: "mark_removed_campaigns now t ?cur ?R (st1, db1) = Inr (st2, db2)"
    by blast
  from update_existing_campaigns_Inr [OF dom3, of now t st2 db2]
  obtain st3 db3 where
    u: "update_existing_campaigns now t ?cur ?ids new (st2, db2) = Inr (st3, db3)"
    by blast
  show ?thesis using assms(2) r1 m u by (simp add: update_campaigns_def Let_def)
qed

lemma update_campaigns_collision:
  "c \<in> set new \<Longrightarrow> camp_id c \<in> set (added_campaigns new db) \<Longrightarrow>
     camp_id c \<in> c_id ` set (campaigns db) \<Longrightarrow>
     update_campaigns it new now t db = Inl IntegrityError"
  using add_new_campaigns_collision [of c new "added_campaigns new db" db now t zero_stats]
  by (simp add: update_campaigns_def Let_def)

section \<open>Campaign diff: soft-deleted rows\<close>

lemma active_update_all [simp]: "c_is_active (update_all cs now r) = c_is_active r"
  by (simp add: update_all_def apply_update_def split: option.splits)

lemma active_deactivate_all:
  "c_is_active (deactivate_all ids now r) \<longleftrightarrow> c_is_active r \<and> c_id r \<notin> set ids"
  by (simp add: deactivate_all_def soft_delete_def)

lemma update_all_other:
  "c_id r \<notin> camp_id ` set cs \<Longrightarrow> update_all cs now r = r"
proof -
  assume "c_id r \<notin> camp_id ` set cs"
  then have "\<And>c. c \<in> set cs \<Longrightarrow> camp_id c \<noteq> c_id r" by (metis imageI)
  then have "find (\<lambda>c. camp_id c = c_id r) (rev cs) = None"
    by (simp add: find_None_iff)
  then show ?thesis by (simp add: update_all_def)
qed

lemma c_id_new_campaign_row [simp]: "c_id (new_campaign_row now c) = camp_id c"
  by (simp add: new_campaign_row_def)

lemma set_new_campaign_ids: "set (new_campaign_ids new) = camp_id ` set new"
  by (simp add: new_campaign_ids_def set_set_of_list)

lemma set_added_campaigns:
  "set (added_campaigns new db) = camp_id ` set new - set (current_campaign_ids db)"
  by (simp add: added_campaigns_def set_set_diff set_new_campaign_ids)

lemma set_removed_campaigns:
  "set (removed_campaigns new db) = set (current_campaign_ids db) - camp_id ` set new"
  by (simp add: removed_campaigns_def set_set_diff set_new_campaign_ids)

lemma distinct_removed_campaigns: "distinct (removed_campaigns new db)"
  by (simp add: removed_campaigns_def distinct_set_diff current_campaign_ids_def
      distinct_set_of_list)

lemma soft_deleted_not_current:
  "soft_deleted i db \<Longrightarrow> i \<notin> set (current_campaign_ids db)"
  by (auto simp: soft_deleted_def set_current_campaign_ids)

lemma soft_deleted_row:
  "campaigns_primary_key db \<Longrightarrow> r \<in> set (campaigns db) \<Longrightarrow> \<not> c_is_active r \<Longrightarrow>
     soft_deleted (c_id r) db"
  unfolding soft_deleted_def campaigns_primary_key_def
  by (auto simp: distinct_map inj_on_def)

lemma soft_deleted_blocks:
  assumes "soft_deleted i db" and "c \<in> set new" and "camp_id c = i"
  shows "i \<in> set (added_campaigns new db)"
    and "update_campaigns it new now t db = Inl IntegrityError"
proof -
  show a: "i \<in> set (added_campaigns new db)"
    using assms soft_deleted_not_current [OF assms(1)] by (auto simp: set_added_campaigns)
  have "camp_id c \<in> c_id ` set (campaigns db)"
    using assms by (simp add: soft_deleted_def)
  then show "update_campaigns it new now t db = Inl IntegrityError"
    using update_campaigns_collision [OF assms(2)] a assms(3) by simp
qed

lemma soft_deleted_update_campaigns:
  assumes "soft_deleted i db" and "update_campaigns it new now t db = Inr (st, db')"
  shows "soft_deleted i db'"
proof -
  note R = update_campaigns_result [OF assms(2)]
  let ?f = "\<lambda>x. update_all (changed_campaigns new db) now
                (deactivate_all (it (removed_campaigns new db)) now x)"
  have rows: "campaigns db' =
      map ?f (campaigns db) @ map ?f (map (new_campaign_row now) (inserted_campaigns new db))"
    using R(1) by simp
  have idf: "c_id (?f x) = c_id x" for x by simp
  have actf: "c_is_active (?f x) \<Longrightarrow> c_is_active x" for x
    by (simp add: active_deactivate_all)
  have 1: "i \<in> c_id ` set (campaigns db')"
  proof -
    from assms(1) obtain y where "y \<in> set (campaigns db)" "c_id y = i"
      by (auto simp: soft_deleted_def)
    then have "?f y \<in> set (campaigns db')" "c_id (?f y) = i" using rows idf by auto
    then show ?thesis by (metis image_eqI)
  qed
  have 2: "\<not> c_is_active x" if x: "x \<in> set (campaigns db')" "c_id x = i" for x
  proof -
    from x(1) rows consider y where "y \<in> set (campaigns db)" "x = ?f y"
      | c where "c \<in> set (inserted_campaigns new db)" "x = ?f (new_campaign_row now c)"
      by auto
    then show ?thesis
    proof cases
      case 1
      then have "c_id y = i" using x(2) idf by simp
      with 1 assms(1) have "\<not> c_is_active y" by (auto simp: soft_deleted_def)
      with 1 actf show ?thesis by blast
    next
      case 2
      then have "camp_id c = i" using x(2) idf [of "new_campaign_row now c"] by simp
      moreover have "i \<in> c_id ` set (campaigns db)"
        using assms(1) by (simp add: soft_deleted_def)
      ultimately show ?thesis using R(7) 2(1) by blast
    qed
  qed
  show ?thesis unfolding soft_deleted_def using 1 2 by blast
qed

lemma filter_id_map:
  "(\<And>x. c_id (f x) = c_id x) \<Longrightarrow>
     filter (\<lambda>x. c_id x = i) (map f tbl) = map f (filter (\<lambda>x. c_id x = i) tbl)"
  by (induction tbl) auto

lemma filter_id_unique:
  "distinct (map c_id tbl) \<Longrightarrow> r \<in> set tbl \<Longrightarrow> filter (\<lambda>x. c_id x = c_id r) tbl = [r]"
proof (induction tbl)
  case Nil
  then show ?case by simp
next
  case (Cons a tbl)
  show ?case
  proof (cases "a = r")
    case True
    with Cons.prems(1) have "c_id r \<notin> c_id ` set tbl" by simp
    then have "\<And>x. x \<in> set tbl \<Longrightarrow> c_id x \<noteq> c_id r" by (metis imageI)
    then have "filter (\<lambda>x. c_id x = c_id r) tbl = []"
      by (simp add: filter_empty_conv)
    with True show ?thesis by simp
  next
    case False
    with Cons.prems have "r \<in> set tbl" "c_id a \<noteq> c_id r" by auto
    with Cons show ?thesis by simp
  qed
qed

lemma length_filter_eq_distinct:
  "distinct xs \<Longrightarrow> x \<in> set xs \<Longrightarrow> length (filter (\<lambda>y. y = x) xs) = 1"
  by (induction xs) (auto simp: filter_empty_conv)

lemma count_kind:
  "length (filter (\<lambda>e. change_type e = ty \<and> cl_campaign_id e = Some i) es) =
     length (filter (\<lambda>k. k = (ty, Some i)) (map entry_kind es))"
  by (induction es) (auto simp: entry_kind_def)

section \<open>Campaign diff: the store after a reconciliation\<close>

lemma notin_imageI: "(\<And>x. x \<in> A \<Longrightarrow> f x \<noteq> y) \<Longrightarrow> y \<notin> f ` A"
  by blast

lemma deactivate_all_Nil: "deactivate_all [] now r = r"
  by (simp add: deactivate_all_def)

lemma update_all_Nil: "update_all [] now r = r"
  by (simp add: update_all_def)

lemma current_campaigns_lookup:
  assumes "campaigns_primary_key db" and "y \<in> set (campaigns db)" and "c_is_active y"
  shows "map_of (current_campaigns db) (c_id y) = Some (c_name y, c_status y)"
proof -
  let ?kvs = "map (\<lambda>r. (c_id r, (c_name r, c_status r))) (filter c_is_active (campaigns db))"
  have d: "distinct (map fst ?kvs)"
    using assms(1) by (simp add: campaigns_primary_key_def distinct_map_filter comp_def)
  then have "current_campaigns db = ?kvs"
    by (simp add: current_campaigns_def dict_of_distinct)
  moreover have "(c_id y, (c_name y, c_status y)) \<in> set ?kvs" using assms(2,3) by auto
  ultimately show ?thesis using d by (simp add: map_of_is_SomeI)
qed

lemma set_inserted_campaigns:
  "set (inserted_campaigns new db) =
     {c \<in> set new. camp_id c \<notin> set (current_campaign_ids db)}"
  by (auto simp: inserted_campaigns_def set_added_campaigns)

lemma changed_campaigns_subset: "set (changed_campaigns new db) \<subseteq> set new"
  by (auto simp: changed_campaigns_def)

lemma changed_campaigns_current:
  "c \<in> set (changed_campaigns new db) \<Longrightarrow> camp_id c \<in> set (current_campaign_ids db)"
  by (simp add: changed_campaigns_def campaign_changed_def)

lemma update_all_unique:
  assumes "distinct (map camp_id cs)" and "c \<in> set cs" and "camp_id c = c_id r"
  shows "update_all cs now r = apply_update now c r"
proof -
  have "find (\<lambda>c'. camp_id c' = c_id r) (rev cs) \<noteq> None"
    using assms(2,3) by (auto simp: find_None_iff)
  then obtain c' where f: "find (\<lambda>c'. camp_id c' = c_id r) (rev cs) = Some c'" by auto
  then obtain i where i: "i < length (rev cs)" "camp_id (rev cs ! i) = c_id r" "c' = rev cs ! i"
    unfolding find_Some_iff by blast
  then have "c' \<in> set (rev cs)" by (metis nth_mem)
  then have "c' \<in> set cs" "camp_id c' = c_id r" using i by simp_all
  with assms have "c' = c" by (metis distinct_map inj_on_def)
  with f show ?thesis by (simp add: update_all_def)
qed

lemma reconciled_store:
  assumes pk: "campaigns_primary_key db" and dn: "distinct (map camp_id new)"
    and it: "iteration_order it"
    and run: "update_campaigns it new now t db = Inr (st, db1)"
  shows "campaigns_primary_key db1"
    and "set (current_campaign_ids db1) = camp_id ` set new"
    and "\<forall>c\<in>set new. map_of (current_campaigns db1) (camp_id c)
                         = Some (camp_name c, camp_status c)"
proof -
  note R = update_campaigns_result [OF run]
  let ?ids = "current_campaign_ids db"
  let ?R = "it (removed_campaigns new db)"
  let ?CH = "changed_campaigns new db"
  let ?NA = "inserted_campaigns new db"
  let ?f = "\<lambda>x. update_all ?CH now (deactivate_all ?R now x)"
  have rows: "campaigns db1 = map ?f (campaigns db @ map (new_campaign_row now) ?NA)"
    using R(1) by simp
  have setR: "set ?R = set ?ids - camp_id ` set new"
    using it by (simp add: iteration_order_set set_removed_campaigns)
  have dCH: "distinct (map camp_id ?CH)"
    using dn by (simp add: changed_campaigns_def distinct_map_filter)
  have ids: "map c_id (campaigns db1) = map c_id (campaigns db) @ map camp_id ?NA"
    unfolding rows by (simp add: comp_def)
  show pk1: "campaigns_primary_key db1"
    unfolding campaigns_primary_key_def ids
    using pk R(6) R(7) by (auto simp: campaigns_primary_key_def)
  have new_row: "?f (new_campaign_row now c) = new_campaign_row now c"
    if c: "c \<in> set ?NA" for c
  proof -
    from c have nc: "camp_id c \<notin> set ?ids" by (simp add: set_inserted_campaigns)
    then have "camp_id c \<notin> set ?R" using setR by simp
    then have 1: "deactivate_all ?R now (new_campaign_row now c) = new_campaign_row now c"
      by (simp add: deactivate_all_def)
    have "\<And>c'. c' \<in> set ?CH \<Longrightarrow> camp_id c' \<noteq> camp_id c"
      using nc changed_campaigns_current by metis
    then have "c_id (new_campaign_row now c) \<notin> camp_id ` set ?CH"
      by (intro notin_imageI) simp
    then show ?thesis using 1 by (simp add: update_all_other)
  qed
  have old_row: "c_is_active (?f y) \<and> c_id (?f y) = camp_id c \<and> c_name (?f y) = camp_name c
                   \<and> c_status (?f y) = camp_status c"
    if y: "y \<in> set (campaigns db)" "c_is_active y" and c: "c \<in> set new" "camp_id c = c_id y"
    for y c
  proof -
    have cur: "c_id y \<in> set ?ids" using y by (auto simp: set_current_campaign_ids)
    have "c_id y \<in> camp_id ` set new" using c by (metis imageI)
    then have nR: "c_id y \<notin> set ?R" using setR by simp
    then have d: "deactivate_all ?R now y = y" by (simp add: deactivate_all_def)
    have look: "map_of (current_campaigns db) (camp_id c) = Some (c_name y, c_status y)"
      using current_campaigns_lookup [OF pk y] c(2) by simp
    show ?thesis
    proof (cases "c \<in> set ?CH")
      case True
      then have "update_all ?CH now y = apply_update now c y"
        using update_all_unique [OF dCH True] c(2) by simp
      then show ?thesis using d y(2) c(2) by (simp add: apply_update_def)
    next
      case False
      then have "\<not> campaign_changed (current_campaigns db) ?ids c"
        using c(1) by (simp add: changed_campaigns_def)
      then have same: "c_name y = camp_name c" "c_status y = camp_status c"
        using look cur c(2) by (simp_all add: campaign_changed_def)
      have "\<And>c'. c' \<in> set ?CH \<Longrightarrow> camp_id c' \<noteq> c_id y"
      proof
        fix c' assume c': "c' \<in> set ?CH" "camp_id c' = c_id y"
        then have "c' \<in> set new" using changed_campaigns_subset by blast
        with c c'(2) dn have "c' = c" by (metis distinct_map inj_on_def)
        with c'(1) False show False by simp
      qed
      then have "c_id y \<notin> camp_id ` set ?CH" by (intro notin_imageI) simp
      then have "update_all ?CH now y = y" by (rule update_all_other)
      then show ?thesis using d y(2) c(2) same by simp
    qed
  qed
  have has_row: "\<exists>z\<in>set (campaigns db1). c_is_active z \<and> c_id z = camp_id c
                   \<and> c_name z = camp_name c \<and> c_status z = camp_status c"
    if c: "c \<in> set new" for c
  proof (cases "camp_id c \<in> set ?ids")
    case True
    then obtain y where y: "y \<in> set (campaigns db)" "c_is_active y" "c_id y = camp_id c"
      by (auto simp: set_current_campaign_ids)
    have "?f y \<in> set (campaigns db1)" using y(1) rows by simp
    with old_row [OF y(1,2) c] y(3) show ?thesis by metis
  next
    case False
    with c have na: "c \<in> set ?NA" by (simp add: set_inserted_campaigns)
    then have "?f (new_campaign_row now c) \<in> set (campaigns db1)" using rows by simp
    then have "new_campaign_row now c \<in> set (campaigns db1)" using new_row [OF na] by simp
    moreover have "c_is_active (new_campaign_row now c)"
      "c_name (new_campaign_row now c) = camp_name c"
      "c_status (new_campaign_row now c) = camp_status c"
      by (simp_all add: new_campaign_row_def)
    ultimately show ?thesis by (metis c_id_new_campaign_row)
  qed
  show act: "set (current_campaign_ids db1) = camp_id ` set new"
  proof
    show "set (current_campaign_ids db1) \<subseteq> camp_id ` set new"
    proof
      fix i assume "i \<in> set (current_campaign_ids db1)"
      then obtain z where z: "z \<in> set (campaigns db1)" "c_is_active z" "c_id z = i"
        by (auto simp: set_current_campaign_ids)
      from z(1) rows consider y where "y \<in> set (campaigns db)" "z = ?f y"
        | c where "c \<in> set ?NA" "z = ?f (new_campaign_row now c)"
        by auto
      then show "i \<in> camp_id ` set new"
      proof cases
        case 1
        with z(2) have a: "c_is_active y" "c_id y \<notin> set ?R"
          by (simp_all add: active_deactivate_all)
        with 1 have "c_id y \<in> set ?ids" by (auto simp: set_current_campaign_ids)
        with a(2) setR have "c_id y \<in> camp_id ` set new" by simp
        moreover have "c_id z = c_id y" using 1 by simp
        ultimately show ?thesis using z(3) by simp
      next
        case 2
        then have "c \<in> set new" by (simp add: set_inserted_campaigns)
        moreover have "c_id z = camp_id c" using 2 by simp
        ultimately show ?thesis using z(3) by (metis imageI)
      qed
    qed
    show "camp_id ` set new \<subseteq> set (current_campaign_ids db1)"
    proof
      fix i assume "i \<in> camp_id ` set new"
      then obtain c where c: "c \<in> set new" "camp_id c = i" by auto
      from has_row [OF c(1)] c(2) show "i \<in> set (current_campaign_ids db1)"
        by (auto simp: set_current_campaign_ids image_iff)
    qed
  qed
  show "\<forall>c\<in>set new. map_of (current_campaigns db1) (camp_id c)
                         = Some (camp_name c, camp_status c)"
  proof
    fix c assume c: "c \<in> set new"
    from has_row [OF c] obtain z where z: "z \<in> set (campaigns db1)" "c_is_active z"
      "c_id z = camp_id c" "c_name z = camp_name c" "c_status z = camp_status c"
      by blast
    from current_campaigns_lookup [OF pk1 z(1,2)] z(3,4,5)
    show "map_of (current_campaigns db1) (camp_id c) = Some (camp_name c, camp_status c)"
      by simp
  qed
qed

section \<open>Lead diff: the inserts into the change log\<close>

lemma insert_change_log_details_column:
  "''details'' \<in> set (map fst binds) \<Longrightarrow> insert_change_log binds t tbl = Inl OperationalError"
  by (auto simp: insert_change_log_def change_log_columns_def filter_empty_conv)

lemma add_new_leads_Cons:
  "add_new_leads now t cid cname added (l # ls) (ch, db) =
     (if lead_id l \<in> set added then
        if lead_id l \<in> l_id ` set (leads db) then Inl IntegrityError else Inl OperationalError
      else add_new_leads now t cid cname added ls (ch, db))"
  by (simp add: insert_lead_def insert_change_log_details_column)

lemma mark_removed_leads_Cons:
  "mark_removed_leads now t cid cname current (lid # rest) (ch, db) =
     (case map_of current lid of None \<Rightarrow> Inl KeyError | Some lead_data \<Rightarrow> Inl OperationalError)"
  by (simp add: insert_change_log_details_column split: option.splits)

declare add_new_leads.simps(2) [simp del]
declare mark_removed_leads.simps(2) [simp del]

lemma add_new_leads_Inr:
  "add_new_leads now t cid cname added ls cd = Inr r \<Longrightarrow>
     r = cd \<and> (\<forall>l\<in>set ls. lead_id l \<notin> set added)"
proof (induction ls)
  case Nil
  then show ?case by simp
next
  case (Cons l ls)
  obtain ch db where cd: "cd = (ch, db)" by (cases cd)
  from Cons.prems have "lead_id l \<notin> set added"
    by (auto simp: cd add_new_leads_Cons split: if_splits)
  with Cons show ?case by (simp add: cd add_new_leads_Cons)
qed

lemma add_new_leads_none:
  "\<forall>l\<in>set ls. lead_id l \<notin> set added \<Longrightarrow>
     add_new_leads now t cid cname added ls cd = Inr cd"
  by (induction ls) (auto simp: add_new_leads_Cons intro: prod.exhaust [of cd])

lemma mark_removed_leads_Inr:
  "mark_removed_leads now t cid cname current ids cd = Inr r \<Longrightarrow> ids = [] \<and> r = cd"
proof (cases ids)
  case Nil
  assume "mark_removed_leads now t cid cname current ids cd = Inr r"
  with Nil show ?thesis by simp
next
  case (Cons i rest)
  obtain ch db where cd: "cd = (ch, db)" by (cases cd)
  assume "mark_removed_leads now t cid cname current ids cd = Inr r"
  with Cons show ?thesis
    by (simp add: cd mark_removed_leads_Cons split: option.splits)
qed

lemma track_lead_changes_body_Inr:
  assumes "track_lead_changes_body it cid cname new now t db = Inr (ch, db')"
  shows "\<exists>es. db' = db\<lparr>change_log := change_log db @ es\<rparr>"
proof -
  let ?cur = "current_leads cid db"
  let ?new_ids = "set_of_list (map lead_id new)"
  let ?cur_ids = "set_of_list (map fst ?cur)"
  let ?A = "set_diff ?new_ids ?cur_ids"
  let ?R = "it (set_diff ?cur_ids ?new_ids)"
  obtain r1 where a: "add_new_leads now t cid cname ?A new (zero_changes, db) = Inr r1"
    using assms
    by (cases "add_new_leads now t cid cname ?A new (zero_changes, db)")
       (auto simp: track_lead_changes_body_def Let_def)
  then have r1: "r1 = (zero_changes, db)" using add_new_leads_Inr by blast
  obtain r2 where m: "mark_removed_leads now t cid cname ?cur ?R (zero_changes, db) = Inr r2"
    using assms a r1
    by (cases "mark_removed_leads now t cid cname ?cur ?R (zero_changes, db)")
       (auto simp: track_lead_changes_body_def Let_def)
  then have r2: "r2 = (zero_changes, db)" using mark_removed_leads_Inr by blast
  show ?thesis
  proof (cases "int (new_company_count new) - int (old_company_count ?cur) = 0")
    case True
    with assms a r1 m r2 have "db' = db"
      by (simp add: track_lead_changes_body_def Let_def)
    then have "db' = db\<lparr>change_log := change_log db @ []\<rparr>" by simp
    then show ?thesis by blast
  next
    case False
    with assms a r1 m r2 show ?thesis
      by (auto simp: track_lead_changes_body_def Let_def insert_change_log_5)
  qed
qed

lemma track_lead_changes_frame:
  "\<exists>es. snd (track_lead_changes it cid cname new now t db) =
           db\<lparr>change_log := change_log db @ es\<rparr>"
proof (cases "track_lead_changes_body it cid cname new now t db")
  case (Inl e)
  then have "snd (track_lead_changes it cid cname new now t db) =
               db\<lparr>change_log := change_log db @ []\<rparr>"
    by (simp add: track_lead_changes_def)
  then show ?thesis by blast
next
  case (Inr r)
  obtain ch db' where r: "r = (ch, db')" by (cases r)
  from track_lead_changes_body_Inr [OF Inr [unfolded r]] Inr r show ?thesis
    by (simp add: track_lead_changes_def)
qed

lemma track_all_campaigns_frame:
  "\<exists>es. snd (track_all_campaigns it now t cs (tot, db)) =
           db\<lparr>change_log := change_log db @ es\<rparr>"
proof (induction cs arbitrary: tot db)
  case Nil
  have "snd (track_all_campaigns it now t [] (tot, db)) = db\<lparr>change_log := change_log db @ []\<rparr>"
    by simp
  then show ?case by blast
next
  case (Cons c cs)
  obtain es1 where 1: "snd (track_lead_changes it (camp_id c) (camp_name c) (camp_leads c)
                          now t db) = db\<lparr>change_log := change_log db @ es1\<rparr>"
    using track_lead_changes_frame by blast
  let ?db1 = "db\<lparr>change_log := change_log db @ es1\<rparr>"
  obtain tot1 where s: "track_all_campaigns it now t (c # cs) (tot, db) =
                          track_all_campaigns it now t cs (tot1, ?db1)"
    using 1 by (simp add: Let_def)
  from Cons.IH [of tot1 ?db1] obtain es2 where
    "snd (track_all_campaigns it now t cs (tot1, ?db1)) =
       ?db1\<lparr>change_log := change_log ?db1 @ es2\<rparr>" by blast
  then have "snd (track_all_campaigns it now t (c # cs) (tot, db)) =
               db\<lparr>change_log := change_log db @ (es1 @ es2)\<rparr>"
    using s by simp
  then show ?case by blast
qed

lemma client_update_campaigns_Inr:
  assumes "client_update_campaigns it running now t duration db = Inr (res, db')"
  shows "\<exists>st db1. update_campaigns it (get_campaigns_with_company_data running) now t db
                     = Inr (st, db1)
           \<and> campaigns db' = campaigns db1 \<and> pushed_companies db' = pushed_companies db1"
proof -
  let ?cs = "get_campaigns_with_company_data running"
  obtain st db1 where u: "update_campaigns it ?cs now t db = Inr (st, db1)"
    using assms
    by (cases "update_campaigns it ?cs now t db")
       (auto simp: client_update_campaigns_def Let_def)
  obtain tot db2 where tr: "track_all_campaigns it now t ?cs (zero_totals, db1) = (tot, db2)"
    by (cases "track_all_campaigns it now t ?cs (zero_totals, db1)")
  from track_all_campaigns_frame [of it now t ?cs zero_totals db1] tr
  obtain es where db2: "db2 = db1\<lparr>change_log := change_log db1 @ es\<rparr>" by auto
  have "db' = update_sync_history duration (total_leads_added tot) (total_leads_removed tot) db2"
    using assms u tr by (simp add: client_update_campaigns_def Let_def)
  then have "campaigns db' = campaigns db1" "pushed_companies db' = pushed_companies db1"
    using db2 by (simp_all add: update_sync_history_def split: list.splits)
  with u show ?thesis by blast
qed

section \<open>Push dedup tracker: the pushed set only grows\<close>


lemma soft_deleted_cong:
  "campaigns db' = campaigns db \<Longrightarrow> soft_deleted i db' = soft_deleted i db"
  by (simp add: soft_deleted_def)






lemma soft_deleted_apply_operation:
  "soft_deleted i db \<Longrightarrow> soft_deleted i (apply_operation op db)"
proof (cases op)
  case (UpdateCampaigns it new now t)
  assume s: "soft_deleted i db"
  show ?thesis
  proof (cases "update_campaigns it new now t db")
    case (Inl e)
    with UpdateCampaigns s show ?thesis by simp
  next
    case (Inr r)
    obtain st db' where r: "r = (st, db')" by (cases r)
    from soft_deleted_update_campaigns [OF s Inr [unfolded r]] UpdateCampaigns Inr r
    show ?thesis by simp
  qed
next
  case (TrackLeadChanges it cid cname new now t)
  assume s: "soft_deleted i db"
  from track_lead_changes_frame [of it cid cname new now t db] obtain es where
    "snd (track_lead_changes it cid cname new now t db) = db\<lparr>change_log := change_log db @ es\<rparr>"
    by blast
  with TrackLeadChanges s show ?thesis by (simp add: soft_deleted_def)
next
  case (ClientUpdateCampaigns it running now t duration)
  assume s: "soft_deleted i db"
  show ?thesis
  proof (cases "client_update_campaigns it running now t duration db")
    case (Inl e)
    with ClientUpdateCampaigns s show ?thesis by simp
  next
    case (Inr r)
    obtain res db' where r: "r = (res, db')" by (cases r)
    from client_update_campaigns_Inr [OF Inr [unfolded r]] obtain st db1 where
      u: "update_campaigns it (get_campaigns_with_company_data running) now t db = Inr (st, db1)"
      and p: "campaigns db' = campaigns db1" by blast
    from soft_deleted_update_campaigns [OF s u] soft_deleted_cong [OF p]
    have "soft_deleted i db'" by simp
    with ClientUpdateCampaigns Inr r show ?thesis by simp
  qed
next
  case (MarkCompaniesAsPushed c ns t locked)
  assume "soft_deleted i db"
  with MarkCompaniesAsPushed show ?thesis
    by (simp add: soft_deleted_def campaigns_mark_companies_as_pushed)
next
  case (LogPushActivity c ty n t)
  assume "soft_deleted i db"
  with LogPushActivity show ?thesis by (simp add: log_push_activity_noop)
next
  case (PushAllCompanies it c lds ok t locked)
  assume s: "soft_deleted i db"
  from push_all_snd [of it c lds ok t locked db]
  have "campaigns (snd (push_all_companies it c lds ok t locked db)) = campaigns db"
    by (auto simp: campaigns_mark_companies_as_pushed)
  then have "soft_deleted i (snd (push_all_companies it c lds ok t locked db))"
    using s by (simp add: soft_deleted_def)
  with PushAllCompanies show ?thesis by simp
next
  case (PushNewCompanies it c lds ok t locked)
  assume s: "soft_deleted i db"
  from push_new_snd [of it c lds ok t locked db]
  have "campaigns (snd (push_new_companies it c lds ok t locked db)) = campaigns db"
    by (auto simp: campaigns_mark_companies_as_pushed)
  then have "soft_deleted i (snd (push_new_companies it c lds ok t locked db))"
    using s by (simp add: soft_deleted_def)
  with PushNewCompanies show ?thesis by simp
qed

lemma soft_deleted_run: "soft_deleted i db \<Longrightarrow> soft_deleted i (run ops db)"
proof (induction ops arbitrary: db)
  case Nil
  then show ?case by (simp add: run_def)
next
  case (Cons op ops)
  have eq: "run (op # ops) db = run ops (apply_operation op db)" by (simp add: run_def)
  show ?case
    unfolding eq by (rule Cons.IH [OF soft_deleted_apply_operation [OF Cons.prems]])
qed

text \<open>
  Claim C10. Take a store whose campaigns table holds a row that is not active, any
  sequence of operations of the module after it, and a snapshot that contains the id of
  that row. The reconciliation reads the current ids from the active rows only, so it
  counts the id as added; the insert of a second row with this primary key fails and
  \<open>update_campaigns\<close> raises the integrity error. The row is still in the table and no
  row with this id is active: nothing sets \<open>is_active\<close> back to true.
\<close>

theorem soft_deleted_campaign_is_never_reactivated:
  assumes "campaigns_primary_key db" and "r \<in> set (campaigns db)" and "\<not> c_is_active r"
    and "c \<in> set new_campaigns" and "camp_id c = c_id r"
  shows "c_id r \<in> set (added_campaigns new_campaigns (run ops db))
     \<and> update_campaigns it new_campaigns now sql_now (run ops db) = Inl IntegrityError
     \<and> c_id r \<in> c_id ` set (campaigns (run ops db))
     \<and> (\<forall>x\<in>set (campaigns (run ops db)). c_id x = c_id r \<longrightarrow> \<not> c_is_active x)"
proof -
  have "soft_deleted (c_id r) db" using assms(1,2,3) by (rule soft_deleted_row)
  then have s: "soft_deleted (c_id r) (run ops db)" by (rule soft_deleted_run)
  have 1: "c_id r \<in> set (added_campaigns new_campaigns (run ops db))"
    using s assms(4,5) by (rule soft_deleted_blocks(1))
  have 2: "update_campaigns it new_campaigns now sql_now (run ops db) = Inl IntegrityError"
    using s assms(4,5) by (rule soft_deleted_blocks(2))
  have 3: "c_id r \<in> c_id ` set (campaigns (run ops db))"
    using s unfolding soft_deleted_def by (rule conjunct1)
  have 4: "\<forall>x\<in>set (campaigns (run ops db)). c_id x = c_id r \<longrightarrow> \<not> c_is_active x"
    using s unfolding soft_deleted_def by (rule conjunct2)
  show ?thesis using 1 2 3 4 by (intro conjI)
qed

text \<open>
  The store in which B was soft-deleted at time 2, one push for B after that, and a
  snapshot that holds B again.
\<close>

theorem soft_deleted_campaign_is_never_reactivated_witness:
  "campaigns_primary_key store_a
   \<and> row_b\<lparr>c_is_active := False, c_last_updated := 2\<rparr> \<in> set (campaigns store_a)
   \<and> \<not> c_is_active (row_b\<lparr>c_is_active := False, c_last_updated := 2\<rparr>)
   \<and> campaign_of ''B'' ''Y'' ''running'' \<in> set [campaign_of ''B'' ''Y'' ''running'']
   \<and> camp_id (campaign_of ''B'' ''Y'' ''running'')
       = c_id (row_b\<lparr>c_is_active := False, c_last_updated := 2\<rparr>)
   \<and> c_id (row_b\<lparr>c_is_active := False, c_last_updated := 2\<rparr>)
       \<in> set (added_campaigns [campaign_of ''B'' ''Y'' ''running'']
            (run [MarkCompaniesAsPushed ''B'' [''Acme''] 3 False] store_a))
   \<and> update_campaigns rev [campaign_of ''B'' ''Y'' ''running''] 4 4
        (run [MarkCompaniesAsPushed ''B'' [''Acme''] 3 False] store_a) = Inl IntegrityError"
proof -
  let ?r = "row_b\<lparr>c_is_active := False, c_last_updated := 2\<rparr>"
  let ?c = "campaign_of ''B'' ''Y'' ''running''"
  have pk: "campaigns_primary_key store_a"
    by (simp add: campaigns_primary_key_def store_a_def row_a_def row_b_def)
  have m: "?r \<in> set (campaigns store_a)" by (simp add: store_a_def)
  have a: "\<not> c_is_active ?r" by simp
  have c: "?c \<in> set [?c]" by simp
  have i: "camp_id ?c = c_id ?r" by (simp add: campaign_of_def row_b_def)
  from soft_deleted_campaign_is_never_reactivated [OF pk m a c i,
      of "[MarkCompaniesAsPushed ''B'' [''Acme''] 3 False]" rev 4 4]
  show ?thesis using pk m a c i by blast
qed

section \<open>Lead diff: the company count change\<close>

text \<open>
  Claim C9. On a fresh database, for the campaign c1 and a snapshot with the one lead L1
  of the company Acme, the new snapshot has one company name and the stored active leads
  have none, so the company count change is 1. The lead is in the added ids; its insert
  into the change log names the column \<open>details\<close>, which the table does not have, and
  raises the operational error. \<open>track_lead_changes\<close> catches it and returns the dictionary
  of zeros: the company count change it reports is 0, and nothing is committed, neither
  the lead nor a \<open>company_count_changed\<close> entry.
\<close>

theorem track_lead_changes_details_failure:
  "track_lead_changes_body (\<lambda>xs. xs) ''c1'' ''Camp'' [lead_of ''L1'' (Some ''Acme'')] 1 1
      init_database = Inl OperationalError
   \<and> track_lead_changes (\<lambda>xs. xs) ''c1'' ''Camp'' [lead_of ''L1'' (Some ''Acme'')] 1 1
      init_database = (zero_changes, init_database)
   \<and> int (new_company_count [lead_of ''L1'' (Some ''Acme'')])
       - int (old_company_count (current_leads ''c1'' init_database)) = 1
   \<and> company_count_change
       (fst (track_lead_changes (\<lambda>xs. xs) ''c1'' ''Camp'' [lead_of ''L1'' (Some ''Acme'')] 1 1
          init_database)) = 0
   \<and> change_log
       (snd (track_lead_changes (\<lambda>xs. xs) ''c1'' ''Camp'' [lead_of ''L1'' (Some ''Acme'')] 1 1
          init_database)) = []"
proof -
  have b: "track_lead_changes_body (\<lambda>xs. xs) ''c1'' ''Camp'' [lead_of ''L1'' (Some ''Acme'')]
             1 1 init_database = Inl OperationalError"
    by (simp add: track_lead_changes_body_def Let_def current_leads_def init_database_def
        dict_of_def set_of_list_def set_add_def set_diff_def lead_of_def add_new_leads_Cons)
  have c: "int (new_company_count [lead_of ''L1'' (Some ''Acme'')])
       - int (old_company_count (current_leads ''c1'' init_database)) = 1"
    by (simp add: new_company_count_def old_company_count_def current_leads_def
        init_database_def dict_of_def set_of_list_def set_add_def lead_of_def)
  show ?thesis
    using b c by (simp add: track_lead_changes_def zero_changes_def init_database_def)
qed

section \<open>Campaign diff: soft delete\<close>

lemmas eval_defs =
  update_campaigns_def Let_def added_campaigns_def removed_campaigns_def new_campaign_ids_def
  current_campaign_ids_def current_campaigns_def dict_of_def dict_set_def set_of_list_def
  set_add_def set_diff_def campaign_of_def init_database_def zero_stats_def
  record_sync_history_def add_new_campaigns_Cons mark_removed_campaigns_Cons
  update_existing_campaigns_Cons new_campaign_row_def campaign_changed_def
  deactivate_campaign_def update_campaign_row_def next_rowid_def

lemma store_ab_reached:
  "update_campaigns (\<lambda>xs. xs)
     [campaign_of ''A'' ''X'' ''running'', campaign_of ''B'' ''Y'' ''running''] 1 1 init_database
   = Inr (\<lparr>campaigns_added = 2, campaigns_removed = 0, campaigns_updated = 0,
            st_leads_added = 0, st_leads_removed = 0\<rparr>, store_ab)"
  by (simp add: eval_defs store_ab_def row_a_def row_b_def sync_row_def)

lemma store_a_reached:
  "update_campaigns (\<lambda>xs. xs) [campaign_of ''A'' ''X'' ''running''] 2 2 store_ab
   = Inr (\<lparr>campaigns_added = 0, campaigns_removed = 1, campaigns_updated = 0,
            st_leads_added = 0, st_leads_removed = 0\<rparr>, store_a)"
  by (simp add: eval_defs store_a_def store_ab_def row_a_def row_b_def sync_row_def
      campaign_log_entry_def)

text \<open>
  In the store where B is soft-deleted and A is active, the snapshot that holds B alone
  does not contain the active campaign A. The reconciliation raises the integrity error on
  the insert of B and commits nothing: the row of A is still active, with the time of its
  last update unchanged, and the change log has no \<open>campaign_removed\<close> entry for A.
\<close>

theorem reconciliation_raises_counterexample:
  "row_a \<in> set (campaigns store_a) \<and> c_is_active row_a
   \<and> c_id row_a \<notin> camp_id ` set [campaign_of ''B'' ''Y'' ''running'']
   \<and> update_campaigns (\<lambda>xs. xs) [campaign_of ''B'' ''Y'' ''running''] 3 3 store_a
       = Inl IntegrityError
   \<and> apply_operation (UpdateCampaigns (\<lambda>xs. xs) [campaign_of ''B'' ''Y'' ''running''] 3 3)
        store_a = store_a
   \<and> filter (\<lambda>x. c_id x = ''A'') (campaigns store_a) = [row_a]
   \<and> filter (\<lambda>e. change_type e = ''campaign_removed'' \<and> cl_campaign_id e = Some ''A'')
        (change_log store_a) = []"
proof -
  have r: "update_campaigns (\<lambda>xs. xs) [campaign_of ''B'' ''Y'' ''running''] 3 3 store_a
       = Inl IntegrityError"
    by (simp add: eval_defs store_a_def store_ab_def row_a_def row_b_def)
  show ?thesis
    by (simp add: r)
       (simp add: store_a_def store_ab_def row_a_def row_b_def campaign_of_def
          campaign_log_entry_def)
qed

text \<open>
  Claim C6, amended. Take a reconciliation that completes, and a row of the campaigns
  table that is active and whose id is not in the snapshot. After the reconciliation the
  table holds exactly one row with this id: the same row with \<open>is_active\<close> false and
  \<open>last_updated\<close> the time of the reconciliation, its id, name, status and creation time
  as before. The change log is the old one with entries appended, and among them exactly
  one is a \<open>campaign_removed\<close> entry for this campaign.
\<close>

theorem soft_delete_retains_row:
  assumes "campaigns_primary_key db" and "iteration_order it"
    and "update_campaigns it new now t db = Inr (st, db')"
    and "r \<in> set (campaigns db)" and "c_is_active r" and "c_id r \<notin> camp_id ` set new"
  shows "filter (\<lambda>x. c_id x = c_id r) (campaigns db') =
           [r\<lparr>c_is_active := False, c_last_updated := now\<rparr>]
     \<and> (\<exists>es. change_log db' = change_log db @ es)
     \<and> length (filter (\<lambda>e. change_type e = ''campaign_removed''
                           \<and> cl_campaign_id e = Some (c_id r)) (change_log db')) =
         length (filter (\<lambda>e. change_type e = ''campaign_removed''
                           \<and> cl_campaign_id e = Some (c_id r)) (change_log db)) + 1"
proof -
  note R = update_campaigns_result [OF assms(3)]
  let ?i = "c_id r"
  let ?R = "it (removed_campaigns new db)"
  let ?CH = "changed_campaigns new db"
  let ?f = "\<lambda>x. update_all ?CH now (deactivate_all ?R now x)"
  have cur: "?i \<in> set (current_campaign_ids db)"
    using assms(4,5) by (auto simp: set_current_campaign_ids)
  have inR: "?i \<in> set ?R"
    using cur assms(2,6) by (simp add: iteration_order_set set_removed_campaigns)
  have dR: "distinct ?R"
    using assms(2) by (simp add: iteration_order_distinct distinct_removed_campaigns)
  have old: "filter (\<lambda>x. c_id x = ?i) (campaigns db) = [r]"
    using assms(1,4) by (simp add: filter_id_unique campaigns_primary_key_def)
  have "?i \<in> c_id ` set (campaigns db)" using assms(4) by simp
  then have "?i \<notin> camp_id ` set (inserted_campaigns new db)" using R(7) by blast
  then have "\<And>c. c \<in> set (inserted_campaigns new db) \<Longrightarrow> camp_id c \<noteq> ?i"
    by (metis imageI)
  then have new_rows:
    "filter (\<lambda>x. c_id x = ?i) (map (new_campaign_row now) (inserted_campaigns new db)) = []"
    by (simp add: filter_empty_conv)
  have nCH: "?i \<notin> camp_id ` set ?CH" using assms(6) by (auto simp: changed_campaigns_def)
  have "filter (\<lambda>x. c_id x = ?i) (campaigns db') =
          map (update_all ?CH now) (map (deactivate_all ?R now)
            (filter (\<lambda>x. c_id x = ?i)
               (campaigns db @ map (new_campaign_row now) (inserted_campaigns new db))))"
    unfolding R(1) by (simp only: filter_id_map c_id_update_all c_id_deactivate_all)
  also have "\<dots> = map (update_all ?CH now) (map (deactivate_all ?R now) [r])"
    by (simp only: filter_append old new_rows append_Nil2)
  also have "\<dots> = [r\<lparr>c_is_active := False, c_last_updated := now\<rparr>]"
    using inR nCH by (simp add: update_all_other deactivate_all_def soft_delete_def)
  finally have 1: "filter (\<lambda>x. c_id x = ?i) (campaigns db') =
             [r\<lparr>c_is_active := False, c_last_updated := now\<rparr>]" .
  from R(2) obtain es where
    es: "change_log db' = change_log db @ es"
    and k: "map entry_kind es =
             map (\<lambda>c. (''campaign_added'', Some (camp_id c))) (inserted_campaigns new db)
             @ map (\<lambda>i. (''campaign_removed'', Some i)) ?R
             @ map (\<lambda>c. (''campaign_updated'', Some (camp_id c))) ?CH"
    by blast
  have "filter (\<lambda>k. k = (''campaign_removed'', Some ?i))
          (map (\<lambda>i. (''campaign_removed'', Some i)) ?R) =
        map (\<lambda>i. (''campaign_removed'', Some i)) (filter (\<lambda>j. j = ?i) ?R)"
    by (simp add: filter_map comp_def)
  then have lk:
    "length (filter (\<lambda>k. k = (''campaign_removed'', Some ?i)) (map entry_kind es)) = 1"
    unfolding k using length_filter_eq_distinct [OF dR inR]
    by (simp add: filter_map comp_def)
  have c1: "length (filter (\<lambda>e. change_type e = ''campaign_removed''
                           \<and> cl_campaign_id e = Some ?i) es) = 1"
    unfolding count_kind by (rule lk)
  have 3: "length (filter (\<lambda>e. change_type e = ''campaign_removed''
                           \<and> cl_campaign_id e = Some ?i) (change_log db')) =
         length (filter (\<lambda>e. change_type e = ''campaign_removed''
                           \<and> cl_campaign_id e = Some ?i) (change_log db)) + 1"
    unfolding es using c1 by simp
  show ?thesis using 1 es 3 by blast
qed

text \<open>The reconciliation of the snapshot with A alone, in the store of A and B.\<close>

theorem soft_delete_retains_row_witness:
  "campaigns_primary_key store_ab \<and> iteration_order (\<lambda>xs. xs)
   \<and> update_campaigns (\<lambda>xs. xs) [campaign_of ''A'' ''X'' ''running''] 2 2 store_ab
       = Inr (\<lparr>campaigns_added = 0, campaigns_removed = 1, campaigns_updated = 0,
                st_leads_added = 0, st_leads_removed = 0\<rparr>, store_a)
   \<and> row_b \<in> set (campaigns store_ab) \<and> c_is_active row_b
   \<and> c_id row_b \<notin> camp_id ` set [campaign_of ''A'' ''X'' ''running'']
   \<and> filter (\<lambda>x. c_id x = c_id row_b) (campaigns store_a) =
       [row_b\<lparr>c_is_active := False, c_last_updated := 2\<rparr>]
   \<and> length (filter (\<lambda>e. change_type e = ''campaign_removed''
                         \<and> cl_campaign_id e = Some (c_id row_b)) (change_log store_a)) =
       length (filter (\<lambda>e. change_type e = ''campaign_removed''
                         \<and> cl_campaign_id e = Some (c_id row_b)) (change_log store_ab)) + 1"
proof -
  have pk: "campaigns_primary_key store_ab"
    by (simp add: campaigns_primary_key_def store_ab_def row_a_def row_b_def)
  have m: "row_b \<in> set (campaigns store_ab)" by (simp add: store_ab_def)
  have a: "c_is_active row_b" by (simp add: row_b_def)
  have n: "c_id row_b \<notin> camp_id ` set [campaign_of ''A'' ''X'' ''running'']"
    by (simp add: row_b_def campaign_of_def)
  from soft_delete_retains_row [OF pk iteration_order_id store_a_reached m a n]
  show ?thesis using pk iteration_order_id store_a_reached m a n by blast
qed

section \<open>Campaign diff: reconciling the same snapshot twice\<close>

text \<open>
  A snapshot that lists the id A twice, with the names Y and Z, on a store that holds A
  with the name X. The first reconciliation updates the row twice and leaves the name Z.
  The second one, with the identical snapshot, finds the name Y different from the stored
  Z: it reports one updated campaign and appends one more \<open>campaign_updated\<close> entry.
\<close>

theorem reconcile_twice_duplicate_ids_counterexample:
  "map_sum (\<lambda>e. e) fst
     (update_campaigns (\<lambda>xs. xs)
        [campaign_of ''A'' ''Y'' ''running'', campaign_of ''A'' ''Z'' ''running''] 2 2
        (apply_operation (UpdateCampaigns (\<lambda>xs. xs) [campaign_of ''A'' ''X'' ''running''] 1 1)
           init_database))
   = Inr \<lparr>campaigns_added = 0, campaigns_removed = 0, campaigns_updated = 2,
           st_leads_added = 0, st_leads_removed = 0\<rparr>
   \<and> map_sum (\<lambda>e. e) fst
     (update_campaigns (\<lambda>xs. xs)
        [campaign_of ''A'' ''Y'' ''running'', campaign_of ''A'' ''Z'' ''running''] 3 3
        (apply_operation
           (UpdateCampaigns (\<lambda>xs. xs)
              [campaign_of ''A'' ''Y'' ''running'', campaign_of ''A'' ''Z'' ''running''] 2 2)
           (apply_operation (UpdateCampaigns (\<lambda>xs. xs) [campaign_of ''A'' ''X'' ''running''] 1 1)
              init_database)))
   = Inr \<lparr>campaigns_added = 0, campaigns_removed = 0, campaigns_updated = 1,
           st_leads_added = 0, st_leads_removed = 0\<rparr>
   \<and> map change_type (change_log
        (apply_operation
           (UpdateCampaigns (\<lambda>xs. xs)
              [campaign_of ''A'' ''Y'' ''running'', campaign_of ''A'' ''Z'' ''running''] 3 3)
           (apply_operation
              (UpdateCampaigns (\<lambda>xs. xs)
                 [campaign_of ''A'' ''Y'' ''running'', campaign_of ''A'' ''Z'' ''running''] 2 2)
              (apply_operation
                 (UpdateCampaigns (\<lambda>xs. xs) [campaign_of ''A'' ''X'' ''running''] 1 1)
                 init_database))))
   = [''campaign_added'', ''campaign_updated'', ''campaign_updated'', ''campaign_updated'']"
  by (simp add: eval_defs campaign_log_entry_def)

text \<open>
  Claim C4, amended. Take a store whose campaigns have distinct ids and a snapshot whose
  campaigns have distinct ids, and let a first reconciliation of the snapshot complete.
  A second reconciliation of the identical snapshot completes as well, with
  \<open>campaigns_added\<close>, \<open>campaigns_removed\<close> and \<open>campaigns_updated\<close> all zero; it appends
  no entry to the change log and leaves every row of the campaigns table as it was.
\<close>

theorem reconcile_twice_is_idempotent:
  assumes "campaigns_primary_key db" and "distinct (map camp_id new)"
    and "iteration_order it" and "iteration_order it'"
    and "update_campaigns it new now t db = Inr (st, db1)"
  shows "\<exists>db2. update_campaigns it' new now' t' db1 = Inr (zero_stats, db2)
           \<and> change_log db2 = change_log db1 \<and> campaigns db2 = campaigns db1"
proof -
  note S = reconciled_store [OF assms(1,2,3,5)]
  have A: "added_campaigns new db1 = []"
    using S(2) by (simp add: added_campaigns_def set_diff_def set_new_campaign_ids)
  have Rm: "removed_campaigns new db1 = []"
    using S(2) by (simp add: removed_campaigns_def set_diff_def set_new_campaign_ids)
  have Ch: "changed_campaigns new db1 = []"
    using S(3) by (simp add: changed_campaigns_def campaign_changed_def filter_empty_conv)
  have In: "inserted_campaigns new db1 = []" using A by (simp add: inserted_campaigns_def)
  have "add_new_campaigns now' t' (added_campaigns new db1) new (zero_stats, db1)
          = Inr (zero_stats, db1)"
    using A by (simp add: add_new_campaigns_none)
  from update_campaigns_succeeds [OF assms(4) this]
  obtain st2 db2 where r: "update_campaigns it' new now' t' db1 = Inr (st2, db2)" by force
  note R = update_campaigns_result [OF r]
  have e: "it' [] = []" using assms(4) by (rule iteration_order_Nil)
  have "st2 = zero_stats" using R(3) by (simp add: In Rm Ch e zero_stats_def)
  moreover have "change_log db2 = change_log db1" using R(2) by (simp add: In Rm Ch e)
  moreover have "campaigns db2 = campaigns db1"
    using R(1) by (simp add: In Rm Ch e deactivate_all_Nil update_all_Nil comp_def)
  ultimately show ?thesis using r by simp
qed

text \<open>The snapshot of A and B, reconciled twice from a fresh database.\<close>

theorem reconcile_twice_is_idempotent_witness:
  "campaigns_primary_key init_database
   \<and> distinct (map camp_id
        [campaign_of ''A'' ''X'' ''running'', campaign_of ''B'' ''Y'' ''running''])
   \<and> iteration_order (\<lambda>xs. xs) \<and> iteration_order rev
   \<and> update_campaigns (\<lambda>xs. xs)
        [campaign_of ''A'' ''X'' ''running'', campaign_of ''B'' ''Y'' ''running''] 1 1
        init_database
       = Inr (\<lparr>campaigns_added = 2, campaigns_removed = 0, campaigns_updated = 0,
                st_leads_added = 0, st_leads_removed = 0\<rparr>, store_ab)
   \<and> (\<exists>db2. update_campaigns rev
          [campaign_of ''A'' ''X'' ''running'', campaign_of ''B'' ''Y'' ''running''] 2 2 store_ab
          = Inr (zero_stats, db2)
        \<and> change_log db2 = change_log store_ab \<and> campaigns db2 = campaigns store_ab)"
proof -
  have pk: "campaigns_primary_key init_database"
    by (simp add: campaigns_primary_key_def init_database_def)
  have d: "distinct (map camp_id
        [campaign_of ''A'' ''X'' ''running'', campaign_of ''B'' ''Y'' ''running''])"
    by (simp add: campaign_of_def)
  from reconcile_twice_is_idempotent [OF pk d iteration_order_id iteration_order_rev
      store_ab_reached, of 2 2]
  show ?thesis using pk d iteration_order_id iteration_order_rev store_ab_reached by blast
qed

end
